theory Spec2Isabelle
  imports Complex_Main "HOL-Library.Sublist"
begin

section \<open>Template literals\<close>

text \<open>
  The manager builds every path, storage key and message with template literals that
  interpolate numbers. Identifiers, page numbers and counts are natural numbers here, and
  \<open>string_of_nat\<close> is their decimal rendering.
\<close>

definition decimal_digits :: string where
  "decimal_digits = ''0123456789''"

definition digit_char :: "nat \<Rightarrow> char" where
  "digit_char d = decimal_digits ! (d mod 10)"

function string_of_nat :: "nat \<Rightarrow> string" where
  "string_of_nat n =
     (if n < 10 then [digit_char n] else string_of_nat (n div 10) @ [digit_char (n mod 10)])"
  by pat_completeness auto
termination
  by (relation "measure (\<lambda>n. n)") auto

declare string_of_nat.simps [simp del]

text \<open>Reading a decimal rendering back.\<close>

definition digit_val :: "char \<Rightarrow> nat" where
  "digit_val c = length (takeWhile (\<lambda>x. x \<noteq> c) decimal_digits)"

definition nat_of_string :: "string \<Rightarrow> nat" where
  "nat_of_string s = foldl (\<lambda>a c. 10 * a + digit_val c) 0 s"

text \<open>\<open>String.prototype.endsWith\<close>.\<close>

definition endsWith :: "string \<Rightarrow> string \<Rightarrow> bool" where
  "endsWith s suf = (length suf \<le> length s \<and> drop (length s - length suf) s = suf)"

section \<open>Data model (src/types/index.ts)\<close>

type_synonym path = string
type_synonym url = string

record download_urls_t =
  fonts_zip :: url
  database_sqlite :: url
  common_fonts_zip :: url

text \<open>
  \<open>Mushaf\<close>: the field \<open>id\<close> is \<open>id'\<close> here. \<open>pages_count\<close> is declared
  \<open>604 | 610\<close> in the source; the model keeps it a number, as the functions that receive it do.
\<close>

record Mushaf =
  id' :: nat
  name :: string
  code :: string
  description :: string
  pages_count :: nat
  lines_per_page :: nat
  size_mb :: real
  narration :: string
  features :: "string list"
  download_urls :: download_urls_t
  preview_images :: "string list"
  checksum_sha256 :: string
  is_installed :: bool
  installed_at :: "string option"
  local_path :: "string option"

datatype status_t =
  initializing | downloading | extracting | verifying | completed | failed | paused | cancelled

record DownloadProgress =
  mushaf_id :: nat
  status :: status_t
  progress :: real
  downloaded_bytes :: real
  total_bytes :: real
  speed_mbps :: real
  eta_seconds :: real
  current_step :: string
  error :: "string option"

text \<open>The columns of \<open>page_lines\<close> that the manager's query reads.\<close>

record page_line =
  page_number :: nat
  line_number :: nat

text \<open>A row of \<open>installed_mushafs\<close> (src/database/schema.ts); \<open>row_id\<close> is the primary key.\<close>

record installed_mushaf =
  row_id :: nat
  row_name :: string
  row_code :: string
  row_pages_count :: nat
  row_lines_per_page :: nat
  row_local_path :: path
  row_installed_at :: string

section \<open>Errors\<close>

text \<open>
  Every \<open>throw new Error(...)\<close> of the manager is a constructor carrying the values its
  message interpolates; \<open>PlatformError\<close> is an exception raised by a platform call (file
  system, archive, SQLite, key-value storage, transport) and \<open>CallbackError\<close> one raised by
  the caller's progress callback, each carrying that exception's message (what is thrown is
  taken to be an \<open>Error\<close>, as the \<open>catch\<close> block of \<open>downloadMushaf\<close> takes it).
\<close>

datatype exn =
    TransferFailed url
  | MissingAsset path
  | AssetCountMismatch nat nat
  | LineCountViolation nat nat nat
  | PlatformError string
  | CallbackError string

definition e_acute :: string where
  "e_acute = [CHR 0xC3, CHR 0xA9]"

definition E_acute :: string where
  "E_acute = [CHR 0xC3, CHR 0x89]"

text \<open>\<open>(error as Error).message\<close>, in UTF-8.\<close>

fun message :: "exn \<Rightarrow> string" where
  "message (TransferFailed u) = E_acute @ ''chec du t'' @ e_acute @ ''l'' @ e_acute @ ''chargement: '' @ u"
| "message (MissingAsset p) = ''Fichier manquant: '' @ p"
| "message (AssetCountMismatch expected found) =
     ''Nombre de polices incorrect: attendu '' @ string_of_nat expected @ '', trouv'' @ e_acute @ '' ''
       @ string_of_nat found"
| "message (LineCountViolation page required count) =
     (if required = 8 then [] else ''ERREUR CRITIQUE: '') @ ''Page '' @ string_of_nat page
       @ '' devrait avoir '' @ (if required = 8 then ''8'' else ''15'') @ '' lignes, mais a ''
       @ string_of_nat count @ '' lignes''"
| "message (PlatformError m) = m"
| "message (CallbackError m) = m"

section \<open>The platform: file system, databases, key-value storage\<close>

datatype content = LayoutDb "page_line list" | ZipArchive "string list" | Blob

datatype node = Directory | File content

type_synonym filesystem = "(path \<times> node) list"

definition fs_exists :: "filesystem \<Rightarrow> path \<Rightarrow> bool" where
  "fs_exists f p = (map_of f p \<noteq> None)"

definition fs_put :: "filesystem \<Rightarrow> path \<Rightarrow> node \<Rightarrow> filesystem" where
  "fs_put f p n = (p, n) # filter (\<lambda>e. fst e \<noteq> p) f"

text \<open>\<open>is_under d q\<close>: \<open>q\<close> is \<open>d\<close> itself or lies below the directory \<open>d\<close>.\<close>

definition is_under :: "path \<Rightarrow> path \<Rightarrow> bool" where
  "is_under d q =
     (q = d \<or> prefix (if d \<noteq> [] \<and> last d = CHR ''/'' then d else d @ ''/'') q)"

definition fs_remove :: "filesystem \<Rightarrow> path \<Rightarrow> filesystem" where
  "fs_remove f d = filter (\<lambda>e. \<not> is_under d (fst e)) f"

text \<open>The name of the direct child of \<open>dir\<close> that \<open>q\<close> is, if it is one.\<close>

definition child_name :: "path \<Rightarrow> path \<Rightarrow> string option" where
  "child_name dir q =
     (if prefix dir q \<and> q \<noteq> dir then
        (let rest = drop (length dir) q; nm = takeWhile (\<lambda>c. c \<noteq> CHR ''/'') rest
         in if rest = nm \<or> rest = nm @ ''/'' then Some nm else None)
      else None)"

definition children :: "filesystem \<Rightarrow> path \<Rightarrow> string list" where
  "children f dir = remdups (List.map_filter (child_name dir) (map fst f))"

text \<open>
  Every effect the manager has on its surroundings, in the order it happens: a progress
  callback with the snapshot delivered, or a platform call.
\<close>

datatype event =
    Callback DownloadProgress
  | MakeDirectory path
  | DownloadAsync url path
  | Unzip path path
  | DeleteAsync path
  | GetInfo path
  | ReadDirectory path
  | OpenDatabase string
  | CountPageLines string nat
  | InsertRow installed_mushaf
  | DeleteRow nat
  | SetItem string string
  | RemoveItem string
  | GetItem string

record world =
  fs :: filesystem
  installed_mushafs :: "installed_mushaf list"
  AsyncStorage :: "string \<rightharpoonup> string"
  activeDownloads :: "nat set"
  progressCallbacks :: "nat set"
  trace :: "event list"

text \<open>One progress event of a transfer, with the reading of \<open>Date.now()\<close> when it is handled.\<close>

record tick =
  totalBytesWritten :: real
  totalBytesExpectedToWrite :: real
  handled_at :: int

text \<open>
  What a source location answers: the progress events delivered while the transfer runs, the
  HTTP status of the result of \<open>downloadAsync\<close> (\<open>None\<close> when it resolves to
  \<open>undefined\<close>), and the payload.
\<close>

record remote_file =
  ticks :: "tick list"
  result_status :: "nat option"
  payload :: content

text \<open>
  The surroundings of one call: \<open>fault\<close> tells for each platform call whether the platform
  raises there (and with which message), and for each snapshot whether the caller's progress
  callback raises when it is given that snapshot; \<open>startTime\<close> is the reading of \<open>Date.now()\<close>
  before the third transfer and \<open>installed_at\<close> the value of \<open>new Date().toISOString()\<close>.
\<close>

record env =
  documentDirectory :: string
  remote :: "url \<Rightarrow> remote_file"
  fault :: "event \<Rightarrow> string option"
  startTime :: int
  toISOString :: string

section \<open>Sequencing and platform calls\<close>

text \<open>
  An asynchronous step takes the state and returns an exception (\<open>Inl\<close>) or a value
  (\<open>Inr\<close>), with the state it leaves. \<open>andThen m f\<close> is \<open>x = await m; f x\<close>: an
  exception of \<open>m\<close> skips \<open>f\<close>.
\<close>

definition andThen ::
  "('s \<Rightarrow> (exn + 'a) \<times> 's) \<Rightarrow> ('a \<Rightarrow> 's \<Rightarrow> (exn + 'b) \<times> 's) \<Rightarrow> 's \<Rightarrow> (exn + 'b) \<times> 's" where
  "andThen m f s = (case m s of (Inl e, s') \<Rightarrow> (Inl e, s') | (Inr x, s') \<Rightarrow> f x s')"

text \<open>A platform call is recorded, then raises if the surroundings say so, else takes effect.\<close>

definition platform ::
  "env \<Rightarrow> event \<Rightarrow> (world \<Rightarrow> (exn + 'a) \<times> world) \<Rightarrow> world \<Rightarrow> (exn + 'a) \<times> world" where
  "platform en ev effect w =
     (let w1 = w\<lparr>trace := trace w @ [ev]\<rparr>
      in case fault en ev of Some m \<Rightarrow> (Inl (PlatformError m), w1) | None \<Rightarrow> effect w1)"

text \<open>\<open>makeDirectoryAsync(dir, { intermediates: true })\<close>; ancestors are not tracked.\<close>

definition makeDirectoryAsync :: "env \<Rightarrow> path \<Rightarrow> world \<Rightarrow> (exn + unit) \<times> world" where
  "makeDirectoryAsync en dir =
     platform en (MakeDirectory dir) (\<lambda>w. (Inr (), w\<lparr>fs := fs_put (fs w) dir Directory\<rparr>))"

text \<open>\<open>deleteAsync(p, { idempotent: true })\<close>: absence of \<open>p\<close> is not an error.\<close>

definition deleteAsync :: "env \<Rightarrow> path \<Rightarrow> world \<Rightarrow> (exn + unit) \<times> world" where
  "deleteAsync en p =
     platform en (DeleteAsync p) (\<lambda>w. (Inr (), w\<lparr>fs := fs_remove (fs w) p\<rparr>))"

definition getInfoAsync :: "env \<Rightarrow> path \<Rightarrow> world \<Rightarrow> (exn + bool) \<times> world" where
  "getInfoAsync en p = platform en (GetInfo p) (\<lambda>w. (Inr (fs_exists (fs w) p), w))"

definition readDirectoryAsync :: "env \<Rightarrow> path \<Rightarrow> world \<Rightarrow> (exn + string list) \<times> world" where
  "readDirectoryAsync en dir =
     platform en (ReadDirectory dir)
       (\<lambda>w. if fs_exists (fs w) dir then (Inr (children (fs w) dir), w)
            else (Inl (PlatformError ''Directory does not exist''), w))"

definition unzip :: "env \<Rightarrow> path \<Rightarrow> path \<Rightarrow> world \<Rightarrow> (exn + unit) \<times> world" where
  "unzip en src dst =
     platform en (Unzip src dst)
       (\<lambda>w. case map_of (fs w) src of
               Some (File (ZipArchive entries)) \<Rightarrow>
                 (Inr (), w\<lparr>fs := foldl (\<lambda>f n. fs_put f (dst @ n) (File Blob))
                                      (fs_put (fs w) dst Directory) entries\<rparr>)
             | _ \<Rightarrow> (Inl (PlatformError ''Failed to extract file''), w))"

text \<open>
  \<open>SQLite.openDatabaseAsync(dbPath)\<close> on the layout database: the handle gives the rows of
  \<open>page_lines\<close> when the file at \<open>dbPath\<close> is a layout database, and no such table otherwise.
\<close>

definition openDatabaseAsync :: "env \<Rightarrow> path \<Rightarrow> world \<Rightarrow> (exn + page_line list option) \<times> world" where
  "openDatabaseAsync en dbPath =
     platform en (OpenDatabase dbPath)
       (\<lambda>w. (Inr (case map_of (fs w) dbPath of Some (File (LayoutDb rows)) \<Rightarrow> Some rows | _ \<Rightarrow> None), w))"

text \<open>
  \<open>db.getFirstAsync('SELECT COUNT(*) as count FROM page_lines WHERE page_number = ?', [page])\<close>:
  the first row of the answer, which for this query always exists.
\<close>

definition countPageLines :: "page_line list \<Rightarrow> nat \<Rightarrow> nat" where
  "countPageLines rows page = length (filter (\<lambda>r. page_number r = page) rows)"

definition getFirstAsync ::
  "env \<Rightarrow> path \<Rightarrow> page_line list option \<Rightarrow> nat \<Rightarrow> world \<Rightarrow> (exn + nat option) \<times> world" where
  "getFirstAsync en dbPath db page =
     platform en (CountPageLines dbPath page)
       (\<lambda>w. case db of
               None \<Rightarrow> (Inl (PlatformError ''no such table: page_lines''), w)
             | Some rows \<Rightarrow> (Inr (Some (countPageLines rows page)), w))"

text \<open>The catalog \<open>mushaf_library.db\<close>: table \<open>installed_mushafs\<close>, \<open>id INTEGER PRIMARY KEY\<close>.\<close>

definition openMainDatabase :: "env \<Rightarrow> world \<Rightarrow> (exn + unit) \<times> world" where
  "openMainDatabase en = platform en (OpenDatabase ''mushaf_library.db'') (\<lambda>w. (Inr (), w))"

definition runAsync_insert :: "env \<Rightarrow> installed_mushaf \<Rightarrow> world \<Rightarrow> (exn + unit) \<times> world" where
  "runAsync_insert en row =
     platform en (InsertRow row)
       (\<lambda>w. if row_id row \<in> row_id ` set (installed_mushafs w)
            then (Inl (PlatformError ''UNIQUE constraint failed: installed_mushafs.id''), w)
            else (Inr (), w\<lparr>installed_mushafs := installed_mushafs w @ [row]\<rparr>))"

definition runAsync_delete :: "env \<Rightarrow> nat \<Rightarrow> world \<Rightarrow> (exn + unit) \<times> world" where
  "runAsync_delete en mushafId =
     platform en (DeleteRow mushafId)
       (\<lambda>w. (Inr (), w\<lparr>installed_mushafs := filter (\<lambda>r. row_id r \<noteq> mushafId) (installed_mushafs w)\<rparr>))"

definition setItem :: "env \<Rightarrow> string \<Rightarrow> string \<Rightarrow> world \<Rightarrow> (exn + unit) \<times> world" where
  "setItem en k v =
     platform en (SetItem k v) (\<lambda>w. (Inr (), w\<lparr>AsyncStorage := (AsyncStorage w)(k \<mapsto> v)\<rparr>))"

definition removeItem :: "env \<Rightarrow> string \<Rightarrow> world \<Rightarrow> (exn + unit) \<times> world" where
  "removeItem en k =
     platform en (RemoveItem k) (\<lambda>w. (Inr (), w\<lparr>AsyncStorage := (AsyncStorage w)(k := None)\<rparr>))"

definition getItem :: "env \<Rightarrow> string \<Rightarrow> world \<Rightarrow> (exn + string option) \<times> world" where
  "getItem en k = platform en (GetItem k) (\<lambda>w. (Inr (AsyncStorage w k), w))"

section \<open>DownloadManager (src/services/DownloadManager.ts)\<close>

subsection \<open>downloadFile\<close>

text \<open>
  While \<open>downloadMushaf\<close> runs, the state is the world and the mutable \<open>progress\<close> object.
  A progress handler receives the reading of \<open>Date.now()\<close> at its invocation and the
  fraction. The quotient of the two byte counts is the real quotient: a progress event with
  \<open>totalBytesExpectedToWrite = 0\<close>, where the source computes \<open>NaN\<close> or \<open>Infinity\<close>,
  is outside this model. Progress events are delivered while \<open>downloadAsync\<close> is awaited.
\<close>

type_synonym run = "world \<times> DownloadProgress"

definition downloadFile ::
  "env \<Rightarrow> url \<Rightarrow> path \<Rightarrow> (int \<Rightarrow> real \<Rightarrow> run \<Rightarrow> run) \<Rightarrow> run \<Rightarrow> (exn + unit) \<times> run" where
  "downloadFile en u filePath handler s =
     (let s1 = ((fst s)\<lparr>trace := trace (fst s) @ [DownloadAsync u filePath]\<rparr>, snd s);
          s2 = foldl (\<lambda>s' t. handler (handled_at t) (totalBytesWritten t / totalBytesExpectedToWrite t) s')
                 s1 (ticks (remote en u))
      in case fault en (DownloadAsync u filePath) of
           Some m \<Rightarrow> (Inl (PlatformError m), s2)
         | None \<Rightarrow>
             (case result_status (remote en u) of
                None \<Rightarrow> (Inl (TransferFailed u), s2)
              | Some st \<Rightarrow>
                  (let s3 = ((fst s2)\<lparr>fs := fs_put (fs (fst s2)) filePath (File (payload (remote en u)))\<rparr>,
                             snd s2)
                   in if st \<noteq> 200 then (Inl (TransferFailed u), s3) else (Inr (), s3))))"

subsection \<open>verifyIntegrity\<close>

definition criticalFiles :: "path \<Rightarrow> Mushaf \<Rightarrow> path list" where
  "criticalFiles mushafDir m =
     [mushafDir @ ''mushaf_layout.db'',
      mushafDir @ ''fonts/common/bismillah.ttf'',
      mushafDir @ ''fonts/common/surah_names.ttf'',
      mushafDir @ ''fonts/pages/p1.ttf'',
      mushafDir @ ''fonts/pages/p'' @ string_of_nat (pages_count m) @ ''.ttf'']"

fun checkCriticalFiles :: "env \<Rightarrow> path list \<Rightarrow> world \<Rightarrow> (exn + unit) \<times> world" where
  "checkCriticalFiles en [] w = (Inr (), w)"
| "checkCriticalFiles en (filePath # rest) w =
     (case getInfoAsync en filePath w of
        (Inl e, w') \<Rightarrow> (Inl e, w')
      | (Inr ex, w') \<Rightarrow>
          if \<not> ex then (Inl (MissingAsset filePath), w') else checkCriticalFiles en rest w')"

text \<open>The count of the per-page fonts in the listing \<open>pagesDir\<close> of \<open>fonts/pages/\<close>.\<close>

definition checkFontCount :: "Mushaf \<Rightarrow> string list \<Rightarrow> exn + unit" where
  "checkFontCount m pagesDir =
     (let fontFiles = filter (\<lambda>file. endsWith file ''.ttf'') pagesDir
      in if length fontFiles \<noteq> pages_count m
         then Inl (AssetCountMismatch (pages_count m) (length fontFiles))
         else Inr ())"

definition verifyIntegrity :: "env \<Rightarrow> path \<Rightarrow> Mushaf \<Rightarrow> world \<Rightarrow> (exn + unit) \<times> world" where
  "verifyIntegrity en mushafDir m =
     andThen (checkCriticalFiles en (criticalFiles mushafDir m)) (\<lambda>_.
     andThen (readDirectoryAsync en (mushafDir @ ''fonts/pages/'')) (\<lambda>pagesDir w.
       (checkFontCount m pagesDir, w)))"

subsection \<open>validate15LinesPerPage\<close>

text \<open>
  One loop of the check over the pages given, requiring \<open>required\<close> rows on each; the
  source's two loops differ in the pages, the number required and the message only.
\<close>

fun checkPages ::
  "env \<Rightarrow> path \<Rightarrow> page_line list option \<Rightarrow> nat \<Rightarrow> nat list \<Rightarrow> world \<Rightarrow> (exn + unit) \<times> world" where
  "checkPages en dbPath db required [] w = (Inr (), w)"
| "checkPages en dbPath db required (page # pages) w =
     (case getFirstAsync en dbPath db page w of
        (Inl e, w') \<Rightarrow> (Inl e, w')
      | (Inr None, w') \<Rightarrow> checkPages en dbPath db required pages w'
      | (Inr (Some count), w') \<Rightarrow>
          if count \<noteq> required then (Inl (LineCountViolation page required count), w')
          else checkPages en dbPath db required pages w')"

definition validate15LinesPerPage :: "env \<Rightarrow> path \<Rightarrow> nat \<Rightarrow> world \<Rightarrow> (exn + unit) \<times> world" where
  "validate15LinesPerPage en dbPath totalPages =
     andThen (openDatabaseAsync en dbPath) (\<lambda>db.
     andThen (checkPages en dbPath db 8 [1, 2]) (\<lambda>_.
     checkPages en dbPath db 15 [3..<Suc totalPages]))"

subsection \<open>deleteMushaf, cleanupPartialDownload, isInstalled, getMushafPath\<close>

definition mushafDir_of :: "env \<Rightarrow> nat \<Rightarrow> path" where
  "mushafDir_of en mushafId = documentDirectory en @ ''mushafs/'' @ string_of_nat mushafId @ ''/''"

definition key_installed :: "nat \<Rightarrow> string" where
  "key_installed mushafId = ''mushaf_'' @ string_of_nat mushafId @ ''_installed''"

definition key_path :: "nat \<Rightarrow> string" where
  "key_path mushafId = ''mushaf_'' @ string_of_nat mushafId @ ''_path''"

definition deleteMushaf :: "env \<Rightarrow> nat \<Rightarrow> world \<Rightarrow> (exn + unit) \<times> world" where
  "deleteMushaf en mushafId =
     andThen (deleteAsync en (mushafDir_of en mushafId)) (\<lambda>_.
     andThen (openMainDatabase en) (\<lambda>_.
     andThen (runAsync_delete en mushafId) (\<lambda>_.
     andThen (removeItem en (key_installed mushafId)) (\<lambda>_.
     removeItem en (key_path mushafId)))))"

text \<open>The \<open>catch\<close> of \<open>cleanupPartialDownload\<close> logs to the console and returns.\<close>

definition cleanupPartialDownload :: "env \<Rightarrow> path \<Rightarrow> world \<Rightarrow> world" where
  "cleanupPartialDownload en mushafDir w = snd (deleteAsync en mushafDir w)"

definition isInstalled :: "env \<Rightarrow> nat \<Rightarrow> world \<Rightarrow> (exn + bool) \<times> world" where
  "isInstalled en mushafId =
     andThen (getItem en (key_installed mushafId)) (\<lambda>installed w. (Inr (installed = Some ''true''), w))"

definition getMushafPath :: "env \<Rightarrow> nat \<Rightarrow> world \<Rightarrow> (exn + string option) \<times> world" where
  "getMushafPath en mushafId = getItem en (key_path mushafId)"

subsection \<open>downloadMushaf\<close>

text \<open>
  \<open>onProgress(progress)\<close> delivers the object as it is at that moment. The callback is the
  caller's: it returns, or it throws, and no call of it in the manager is guarded.
\<close>

definition onProgress :: "env \<Rightarrow> run \<Rightarrow> (exn + unit) \<times> run" where
  "onProgress en s =
     (let s1 = ((fst s)\<lparr>trace := trace (fst s) @ [Callback (snd s)]\<rparr>, snd s)
      in case fault en (Callback (snd s)) of
           Some msg \<Rightarrow> (Inl (CallbackError msg), s1)
         | None \<Rightarrow> (Inr (), s1))"

definition mutate :: "(DownloadProgress \<Rightarrow> DownloadProgress) \<Rightarrow> run \<Rightarrow> run" where
  "mutate f s = (fst s, f (snd s))"

text \<open>Assignments to \<open>progress\<close> followed by \<open>onProgress(progress)\<close>.\<close>

definition report :: "env \<Rightarrow> (DownloadProgress \<Rightarrow> DownloadProgress) \<Rightarrow> run \<Rightarrow> (exn + unit) \<times> run" where
  "report en f s = onProgress en (mutate f s)"

text \<open>
  Inside a progress handler of a transfer the callback runs in the platform's event listener,
  not in the awaited call: the snapshot is delivered, and an exception of the callback is
  raised into the event emitter and does not reach \<open>downloadMushaf\<close>.
\<close>

definition listener :: "env \<Rightarrow> (DownloadProgress \<Rightarrow> DownloadProgress) \<Rightarrow> run \<Rightarrow> run" where
  "listener en f s = snd (onProgress en (mutate f s))"

definition inWorld :: "(world \<Rightarrow> (exn + 'a) \<times> world) \<Rightarrow> run \<Rightarrow> (exn + 'a) \<times> run" where
  "inWorld m s = (case m (fst s) of (r, w') \<Rightarrow> (r, (w', snd s)))"

definition initialProgress :: "Mushaf \<Rightarrow> DownloadProgress" where
  "initialProgress m =
     \<lparr>mushaf_id = id' m, status = initializing, progress = 0, downloaded_bytes = 0,
      total_bytes = size_mb m * 1024 * 1024, speed_mbps = 0, eta_seconds = 0,
      current_step = ''Initialisation...'', error = None\<rparr>"

definition Telechargement :: string where
  "Telechargement = ''T'' @ e_acute @ ''l'' @ e_acute @ ''chargement''"

text \<open>The three progress handlers passed to \<open>downloadFile\<close>.\<close>

definition databaseTick :: "real \<Rightarrow> DownloadProgress \<Rightarrow> DownloadProgress" where
  "databaseTick downloadProgress p =
     p\<lparr>progress := downloadProgress * 10,
       downloaded_bytes := downloadProgress * total_bytes p * 0.1\<rparr>"

definition commonFontsTick :: "real \<Rightarrow> DownloadProgress \<Rightarrow> DownloadProgress" where
  "commonFontsTick downloadProgress p = p\<lparr>progress := 10 + (downloadProgress * 5)\<rparr>"

definition Math_round :: "real \<Rightarrow> real" where
  "Math_round x = of_int \<lfloor>x + 1 / 2\<rfloor>"

definition fontsTick :: "int \<Rightarrow> int \<Rightarrow> real \<Rightarrow> DownloadProgress \<Rightarrow> DownloadProgress" where
  "fontsTick start now downloadProgress p =
     (let elapsed = of_int (now - start) / 1000;
          bytesDownloaded = downloadProgress * total_bytes p * 0.6;
          speed = (if elapsed > 0 then (bytesDownloaded / 1024 / 1024) / elapsed else 0);
          remainingBytes = total_bytes p - bytesDownloaded
      in p\<lparr>progress := 15 + (downloadProgress * 60),
           downloaded_bytes := bytesDownloaded,
           speed_mbps := speed,
           eta_seconds := (if speed > 0 then Math_round (remainingBytes / (speed * 1024 * 1024)) else 0)\<rparr>)"

definition step1 :: "env \<Rightarrow> path \<Rightarrow> run \<Rightarrow> (exn + unit) \<times> run" where
  "step1 en mushafDir =
     andThen (inWorld (makeDirectoryAsync en mushafDir)) (\<lambda>_.
     inWorld (makeDirectoryAsync en (mushafDir @ ''fonts/'')))"

definition step2 :: "env \<Rightarrow> Mushaf \<Rightarrow> path \<Rightarrow> run \<Rightarrow> (exn + unit) \<times> run" where
  "step2 en m mushafDir =
     andThen (report en (\<lambda>p. p\<lparr>status := downloading,
                             current_step := Telechargement @ '' de la base de donn'' @ e_acute @ ''es...''\<rparr>)) (\<lambda>_.
     downloadFile en (database_sqlite (download_urls m)) (mushafDir @ ''mushaf_layout.db'')
       (\<lambda>now downloadProgress. listener en (databaseTick downloadProgress)))"

definition step3 :: "env \<Rightarrow> Mushaf \<Rightarrow> path \<Rightarrow> run \<Rightarrow> (exn + unit) \<times> run" where
  "step3 en m mushafDir =
     andThen (report en (\<lambda>p. p\<lparr>current_step := Telechargement @ '' des polices communes...''\<rparr>)) (\<lambda>_.
     downloadFile en (common_fonts_zip (download_urls m)) (mushafDir @ ''common_fonts.zip'')
       (\<lambda>now downloadProgress. listener en (commonFontsTick downloadProgress)))"

definition step4 :: "env \<Rightarrow> Mushaf \<Rightarrow> path \<Rightarrow> run \<Rightarrow> (exn + unit) \<times> run" where
  "step4 en m mushafDir =
     andThen (report en (\<lambda>p. p\<lparr>current_step := Telechargement @ '' des '' @ string_of_nat (pages_count m)
                                               @ '' polices...''\<rparr>)) (\<lambda>_.
     downloadFile en (fonts_zip (download_urls m)) (mushafDir @ ''fonts.zip'')
       (\<lambda>now downloadProgress. listener en (fontsTick (startTime en) now downloadProgress)))"

definition step5 :: "env \<Rightarrow> path \<Rightarrow> run \<Rightarrow> (exn + unit) \<times> run" where
  "step5 en mushafDir =
     andThen (report en (\<lambda>p. p\<lparr>status := extracting,
                             current_step := ''Extraction des polices communes...'',
                             progress := 75\<rparr>)) (\<lambda>_.
     andThen (inWorld (unzip en (mushafDir @ ''common_fonts.zip'') (mushafDir @ ''fonts/common/''))) (\<lambda>_.
     inWorld (deleteAsync en (mushafDir @ ''common_fonts.zip''))))"

definition step6 :: "env \<Rightarrow> Mushaf \<Rightarrow> path \<Rightarrow> run \<Rightarrow> (exn + unit) \<times> run" where
  "step6 en m mushafDir =
     andThen (report en (\<lambda>p. p\<lparr>current_step := ''Extraction des '' @ string_of_nat (pages_count m)
                                               @ '' polices...'',
                             progress := 80\<rparr>)) (\<lambda>_.
     andThen (inWorld (unzip en (mushafDir @ ''fonts.zip'') (mushafDir @ ''fonts/pages/''))) (\<lambda>_.
     andThen (inWorld (deleteAsync en (mushafDir @ ''fonts.zip''))) (\<lambda>_.
     report en (\<lambda>p. p\<lparr>progress := 95\<rparr>))))"

definition step7 :: "env \<Rightarrow> Mushaf \<Rightarrow> path \<Rightarrow> run \<Rightarrow> (exn + unit) \<times> run" where
  "step7 en m mushafDir =
     andThen (report en (\<lambda>p. p\<lparr>status := verifying,
                             current_step := ''V'' @ e_acute @ ''rification de l'' @ [CHR 0x27] @ ''int''
                                               @ e_acute @ ''grit'' @ e_acute @ ''...''\<rparr>)) (\<lambda>_.
     inWorld (verifyIntegrity en mushafDir m))"

definition step8 :: "env \<Rightarrow> Mushaf \<Rightarrow> path \<Rightarrow> run \<Rightarrow> (exn + unit) \<times> run" where
  "step8 en m mushafDir =
     inWorld (validate15LinesPerPage en (mushafDir @ ''mushaf_layout.db'') (pages_count m))"

definition installedRow :: "env \<Rightarrow> Mushaf \<Rightarrow> path \<Rightarrow> installed_mushaf" where
  "installedRow en m mushafDir =
     \<lparr>row_id = id' m, row_name = name m, row_code = code m, row_pages_count = pages_count m,
      row_lines_per_page = lines_per_page m, row_local_path = mushafDir,
      row_installed_at = toISOString en\<rparr>"

definition step9 :: "env \<Rightarrow> Mushaf \<Rightarrow> path \<Rightarrow> run \<Rightarrow> (exn + unit) \<times> run" where
  "step9 en m mushafDir =
     andThen (inWorld (openMainDatabase en)) (\<lambda>_.
     inWorld (runAsync_insert en (installedRow en m mushafDir)))"

definition step10 :: "env \<Rightarrow> Mushaf \<Rightarrow> path \<Rightarrow> run \<Rightarrow> (exn + unit) \<times> run" where
  "step10 en m mushafDir =
     andThen (inWorld (setItem en (key_installed (id' m)) ''true'')) (\<lambda>_.
     inWorld (setItem en (key_path (id' m)) mushafDir))"

definition finished :: "env \<Rightarrow> run \<Rightarrow> (exn + unit) \<times> run" where
  "finished en =
     report en (\<lambda>p. p\<lparr>status := completed, progress := 100,
                    current_step := ''Installation termin'' @ e_acute @ ''e !''\<rparr>)"

text \<open>The body of the \<open>try\<close>, in the order of the source's steps (\<open>Etape 1\<close> to \<open>10\<close>).\<close>

definition tryBlock :: "env \<Rightarrow> Mushaf \<Rightarrow> path \<Rightarrow> run \<Rightarrow> (exn + unit) \<times> run" where
  "tryBlock en m mushafDir =
     andThen (step1 en mushafDir) (\<lambda>_.
     andThen (step2 en m mushafDir) (\<lambda>_.
     andThen (step3 en m mushafDir) (\<lambda>_.
     andThen (step4 en m mushafDir) (\<lambda>_.
     andThen (step5 en mushafDir) (\<lambda>_.
     andThen (step6 en m mushafDir) (\<lambda>_.
     andThen (step7 en m mushafDir) (\<lambda>_.
     andThen (step8 en m mushafDir) (\<lambda>_.
     andThen (step9 en m mushafDir) (\<lambda>_.
     andThen (step10 en m mushafDir) (\<lambda>_.
     finished en))))))))))"

text \<open>
  The \<open>catch\<close> block: the failed snapshot, the last callback, the cleanup, the rethrow. An
  exception of that last callback leaves the block at once: the cleanup and the rethrow of
  \<open>error\<close> are skipped and the callback's exception is the one that goes on.
\<close>

definition failedSnapshot :: "exn \<Rightarrow> DownloadProgress \<Rightarrow> DownloadProgress" where
  "failedSnapshot e p =
     p\<lparr>status := failed, error := Some (message e), current_step := ''Erreur: '' @ message e\<rparr>"

definition catchBlock :: "env \<Rightarrow> path \<Rightarrow> exn \<Rightarrow> run \<Rightarrow> (exn + unit) \<times> world" where
  "catchBlock en mushafDir e s =
     (case report en (failedSnapshot e) s of
        (Inl thrown, s1) \<Rightarrow> (Inl thrown, fst s1)
      | (Inr u, s1) \<Rightarrow> (Inl e, cleanupPartialDownload en mushafDir (fst s1)))"

definition finallyBlock :: "Mushaf \<Rightarrow> world \<Rightarrow> world" where
  "finallyBlock m w =
     w\<lparr>activeDownloads := activeDownloads w - {id' m},
       progressCallbacks := progressCallbacks w - {id' m}\<rparr>"

definition downloadMushaf :: "env \<Rightarrow> Mushaf \<Rightarrow> world \<Rightarrow> (exn + unit) \<times> world" where
  "downloadMushaf en m w =
     (let mushafDir = mushafDir_of en (id' m);
          progress0 = initialProgress m;
          w0 = w\<lparr>progressCallbacks := insert (id' m) (progressCallbacks w)\<rparr>;
          (r, w1) = (case tryBlock en m mushafDir (w0, progress0) of
                       (Inr u, s) \<Rightarrow> (Inr u, fst s)
                     | (Inl e, s) \<Rightarrow> catchBlock en mushafDir e s)
      in (r, finallyBlock m w1))"

section \<open>Observing a run\<close>

text \<open>The snapshots delivered to the callback, in order, among the events of a trace.\<close>

definition callbacks :: "event list \<Rightarrow> DownloadProgress list" where
  "callbacks tr = List.map_filter (\<lambda>ev. case ev of Callback p \<Rightarrow> Some p | _ \<Rightarrow> None) tr"

text \<open>Status and percentage of each snapshot delivered so far, and of the object itself.\<close>

definition delivered :: "world \<Rightarrow> (status_t \<times> real) list" where
  "delivered w = map (\<lambda>c. (status c, progress c)) (callbacks (trace w))"

definition reported :: "run \<Rightarrow> (status_t \<times> real) list" where
  "reported s = delivered (fst s)"

definition current :: "run \<Rightarrow> status_t \<times> real" where
  "current s = (status (snd s), progress (snd s))"

text \<open>What has been delivered so far and what the object holds now.\<close>

definition observed :: "(status_t \<times> real) list \<Rightarrow> status_t \<times> real \<Rightarrow> run \<Rightarrow> bool" where
  "observed L c s = (reported s = L \<and> current s = c)"

text \<open>The fractions that the progress events of a source location carry.\<close>

definition fractions :: "env \<Rightarrow> url \<Rightarrow> real list" where
  "fractions en u = map (\<lambda>t. totalBytesWritten t / totalBytesExpectedToWrite t) (ticks (remote en u))"

text \<open>A step on the world that delivers no snapshot.\<close>

definition silent :: "(world \<Rightarrow> (exn + 'a) \<times> world) \<Rightarrow> bool" where
  "silent m = (\<forall>w. callbacks (trace (snd (m w))) = callbacks (trace w))"

text \<open>
  \<open>hoare P m Q E\<close>: from a state satisfying \<open>P\<close>, the step \<open>m\<close> leaves a state
  satisfying \<open>Q\<close> when it returns and \<open>E\<close> when it throws.
\<close>

definition hoare ::
  "('s \<Rightarrow> bool) \<Rightarrow> ('s \<Rightarrow> (exn + 'a) \<times> 's) \<Rightarrow> ('s \<Rightarrow> bool) \<Rightarrow> ('s \<Rightarrow> bool) \<Rightarrow> bool" where
  "hoare P m Q E = (\<forall>s. P s \<longrightarrow> (case m s of (Inl e, s') \<Rightarrow> E s' | (Inr x, s') \<Rightarrow> Q s'))"

text \<open>
  The status and percentage of every \<open>onProgress(progress)\<close> of the \<open>try\<close> block before
  the last one, in the order of the source: the one opening each transfer carries the
  percentage reached so far, each progress event of a transfer its weighted fraction.
\<close>

definition schedule :: "env \<Rightarrow> Mushaf \<Rightarrow> (status_t \<times> real) list" where
  "schedule en m =
     (let F1 = fractions en (database_sqlite (download_urls m));
          F2 = fractions en (common_fonts_zip (download_urls m));
          F3 = fractions en (fonts_zip (download_urls m));
          v1 = last (0 # map (\<lambda>p. p * 10) F1);
          v2 = last (v1 # map (\<lambda>p. 10 + p * 5) F2)
      in [(downloading, 0)] @ map (\<lambda>p. (downloading, p * 10)) F1
         @ [(downloading, v1)] @ map (\<lambda>p. (downloading, 10 + p * 5)) F2
         @ [(downloading, v2)] @ map (\<lambda>p. (downloading, 15 + p * 60)) F3
         @ [(extracting, 75), (extracting, 80), (extracting, 95), (verifying, 95)])"

text \<open>
  The file system and the catalog that a state of a run holds, before the object is marked
  completed.
\<close>

definition holding :: "filesystem \<Rightarrow> installed_mushaf list \<Rightarrow> run \<Rightarrow> bool" where
  "holding G C s =
     (fs (fst s) = G \<and> installed_mushafs (fst s) = C \<and> status (snd s) \<noteq> completed)"

text \<open>A callback that returns normally on every snapshot not marked completed.\<close>

definition calm :: "env \<Rightarrow> bool" where
  "calm en = (\<forall>p. status p \<noteq> completed \<longrightarrow> fault en (Callback p) = None)"

text \<open>A step on the world that leaves the catalog and the key-value storage as they are.\<close>

definition keeps :: "(world \<Rightarrow> (exn + 'a) \<times> world) \<Rightarrow> bool" where
  "keeps m = (\<forall>w. installed_mushafs (snd (m w)) = installed_mushafs w
                 \<and> AsyncStorage (snd (m w)) = AsyncStorage w)"

text \<open>The catalog and the key-value storage that a state of a run holds.\<close>

definition recording :: "installed_mushaf list \<Rightarrow> (string \<rightharpoonup> string) \<Rightarrow> run \<Rightarrow> bool" where
  "recording C S s = (installed_mushafs (fst s) = C \<and> AsyncStorage (fst s) = S)"


section \<open>Sample values\<close>

text \<open>Concrete surroundings on which the theorems below are exercised.\<close>

definition sample_rows :: "page_line list" where
  "sample_rows =
     map (\<lambda>l. \<lparr>page_number = 1, line_number = l\<rparr>) [1..<9]
     @ map (\<lambda>l. \<lparr>page_number = 2, line_number = l\<rparr>) [1..<9]
     @ map (\<lambda>l. \<lparr>page_number = 3, line_number = l\<rparr>) [1..<16]"

definition quiet_env :: env where
  "quiet_env =
     \<lparr>documentDirectory = ''file:///data/'',
      remote = (\<lambda>u. \<lparr>ticks = [], result_status = Some 200, payload = Blob\<rparr>),
      fault = (\<lambda>ev. None), startTime = 0, toISOString = ''2024-01-01T00:00:00.000Z''\<rparr>"

definition layout_world :: "page_line list \<Rightarrow> world" where
  "layout_world rows =
     \<lparr>fs = [(''/m/mushaf_layout.db'', File (LayoutDb rows))], installed_mushafs = [],
      AsyncStorage = Map.empty, activeDownloads = {}, progressCallbacks = {}, trace = []\<rparr>"

text \<open>The first entry of \<open>AVAILABLE_MUSHAFS\<close> (src/data/availableMushafs.ts).\<close>

definition qpc_v2 :: Mushaf where
  "qpc_v2 =
     \<lparr>id' = 1, name = ''KFGQPC V2 (1421H)'', code = ''qpc_v2'',
      description = ''King Fahd Glorious Quran Printing Complex - Calligraphie Uthman Taha - Version standard'',
      pages_count = 604, lines_per_page = 15, size_mb = 185, narration = ''Hafs'',
      features = [''juz_markers'', ''hizb_markers'', ''sajdah_markers''],
      download_urls =
        \<lparr>fonts_zip = ''https://cdn.qul.tarteel.ai/fonts/qpc_v2_fonts.zip'',
         database_sqlite = ''https://cdn.qul.tarteel.ai/databases/qpc_v2_layout.db'',
         common_fonts_zip = ''https://cdn.qul.tarteel.ai/fonts/common_fonts.zip''\<rparr>,
      preview_images = [''https://cdn.qul.tarteel.ai/previews/qpc_v2_page_1.jpg'',
                        ''https://cdn.qul.tarteel.ai/previews/qpc_v2_page_300.jpg''],
      checksum_sha256 = ''abc123def456...'', is_installed = False,
      installed_at = None, local_path = None\<rparr>"

text \<open>Surroundings in which every transfer answers with the status given.\<close>

definition answering :: "nat option \<Rightarrow> env" where
  "answering st = quiet_env\<lparr>remote := (\<lambda>u. \<lparr>ticks = [], result_status = st, payload = Blob\<rparr>)\<rparr>"

definition empty_world :: world where
  "empty_world =
     \<lparr>fs = [], installed_mushafs = [], AsyncStorage = Map.empty, activeDownloads = {},
      progressCallbacks = {}, trace = []\<rparr>"

text \<open>An installation directory \<open>/m/\<close> holding two per-page fonts and a text file.\<close>

definition two_fonts_world :: world where
  "two_fonts_world =
     \<lparr>fs = [(''/m/'', Directory),
            (''/m/mushaf_layout.db'', File (LayoutDb sample_rows)),
            (''/m/fonts/common/'', Directory),
            (''/m/fonts/common/bismillah.ttf'', File Blob),
            (''/m/fonts/common/surah_names.ttf'', File Blob),
            (''/m/fonts/pages/'', Directory),
            (''/m/fonts/pages/p1.ttf'', File Blob),
            (''/m/fonts/pages/notes.txt'', File Blob),
            (''/m/fonts/pages/p604.ttf'', File Blob)],
      installed_mushafs = [], AsyncStorage = Map.empty, activeDownloads = {},
      progressCallbacks = {}, trace = []\<rparr>"

text \<open>The names of the per-page fonts of the pages given.\<close>

definition font_names :: "nat list \<Rightarrow> string list" where
  "font_names pages = map (\<lambda>i. ''p'' @ string_of_nat i @ ''.ttf'') pages"

text \<open>A library in which the first Mushaf is installed.\<close>

definition library_world :: world where
  "library_world =
     \<lparr>fs = [(''file:///data/mushafs/1/'', Directory),
            (''file:///data/mushafs/1/mushaf_layout.db'', File (LayoutDb sample_rows))],
      installed_mushafs =
        [\<lparr>row_id = 1, row_name = ''KFGQPC V2 (1421H)'', row_code = ''qpc_v2'',
          row_pages_count = 604, row_lines_per_page = 15,
          row_local_path = ''file:///data/mushafs/1/'',
          row_installed_at = ''2024-01-01T00:00:00.000Z''\<rparr>],
      AsyncStorage = [''mushaf_1_installed'' \<mapsto> ''true'',
                      ''mushaf_1_path'' \<mapsto> ''file:///data/mushafs/1/''],
      activeDownloads = {}, progressCallbacks = {}, trace = []\<rparr>"

text \<open>
  A Mushaf of three pages, to keep a sample installation small, and surroundings in which
  its installation meets no obstacle: every transfer delivers two progress events and
  answers 200, the layout database has 8, 8 and 15 lines, the archives hold the fonts.
\<close>

definition small_mushaf :: Mushaf where
  "small_mushaf = qpc_v2\<lparr>pages_count := 3\<rparr>"

definition sample_env :: env where
  "sample_env =
     \<lparr>documentDirectory = ''file:///data/'',
      remote = (\<lambda>u.
        if u = ''https://cdn.qul.tarteel.ai/databases/qpc_v2_layout.db'' then
          \<lparr>ticks = [\<lparr>totalBytesWritten = 1, totalBytesExpectedToWrite = 2, handled_at = 100\<rparr>,
                    \<lparr>totalBytesWritten = 2, totalBytesExpectedToWrite = 2, handled_at = 200\<rparr>],
           result_status = Some 200, payload = LayoutDb sample_rows\<rparr>
        else if u = ''https://cdn.qul.tarteel.ai/fonts/common_fonts.zip'' then
          \<lparr>ticks = [\<lparr>totalBytesWritten = 1, totalBytesExpectedToWrite = 2, handled_at = 300\<rparr>,
                    \<lparr>totalBytesWritten = 2, totalBytesExpectedToWrite = 2, handled_at = 400\<rparr>],
           result_status = Some 200, payload = ZipArchive [''bismillah.ttf'', ''surah_names.ttf'']\<rparr>
        else
          \<lparr>ticks = [\<lparr>totalBytesWritten = 1, totalBytesExpectedToWrite = 2, handled_at = 2000\<rparr>,
                    \<lparr>totalBytesWritten = 2, totalBytesExpectedToWrite = 2, handled_at = 3000\<rparr>],
           result_status = Some 200, payload = ZipArchive [''p1.ttf'', ''p2.ttf'', ''p3.ttf'']\<rparr>),
      fault = (\<lambda>ev. None), startTime = 1000, toISOString = ''2024-01-01T00:00:00.000Z''\<rparr>"

text \<open>
  Surroundings in which every transfer answers 404 and the removal of any path raises.
\<close>

definition stubborn_env :: env where
  "stubborn_env =
     (answering (Some 404))\<lparr>fault := (\<lambda>ev. case ev of DeleteAsync p \<Rightarrow> Some ''EBUSY'' | _ \<Rightarrow> None)\<rparr>"

text \<open>
  Surroundings in which every transfer answers 404 and the caller's callback throws when it
  is given a snapshot marked failed.
\<close>

definition throwing_env :: env where
  "throwing_env =
     (answering (Some 404))\<lparr>fault := (\<lambda>ev. case ev of
          Callback p \<Rightarrow> if status p = failed then Some ''callback failed'' else None
        | _ \<Rightarrow> None)\<rparr>"

text \<open>
  The surroundings of the sample installation, with a callback that throws when it is given
  a snapshot marked completed.
\<close>

definition tripping_env :: env where
  "tripping_env =
     sample_env\<lparr>fault := (\<lambda>ev. case ev of
          Callback p \<Rightarrow> if status p = completed then Some ''callback failed'' else None
        | _ \<Rightarrow> None)\<rparr>"


section \<open>Platform calls and sequencing\<close>

lemma platform_ok:
  "fault en ev = None \<Longrightarrow> platform en ev effect w = effect (w\<lparr>trace := trace w @ [ev]\<rparr>)"
  by (simp add: platform_def)

lemma platform_fault:
  "fault en ev = Some msg \<Longrightarrow> platform en ev effect w = (Inl (PlatformError msg), w\<lparr>trace := trace w @ [ev]\<rparr>)"
  by (simp add: platform_def)

lemma checkPages_run:
  assumes "\<forall>page. fault en (CountPageLines dbPath page) = None"
  shows "checkPages en dbPath (Some rows) required pages w =
     (case find (\<lambda>p. countPageLines rows p \<noteq> required) pages of
        None \<Rightarrow> (Inr (), w\<lparr>trace := trace w @ map (CountPageLines dbPath) pages\<rparr>)
      | Some p \<Rightarrow>
          (Inl (LineCountViolation p required (countPageLines rows p)),
           w\<lparr>trace := trace w @ map (CountPageLines dbPath)
                  (takeWhile (\<lambda>p. countPageLines rows p = required) pages @ [p])\<rparr>))"
  using assms
proof (induction pages arbitrary: w)
  case Nil
  then show ?case by simp
next
  case (Cons page pages)
  then show ?case
    by (simp add: getFirstAsync_def platform_ok split: option.splits)
qed

lemma find_upt_Some:
  assumes "find P [a..<b] = Some p"
  shows "a \<le> p \<and> p < b \<and> P p \<and> (\<forall>q. a \<le> q \<and> q < p \<longrightarrow> \<not> P q)
         \<and> takeWhile (\<lambda>q. \<not> P q) [a..<b] = [a..<p]"
proof -
  from assms obtain i where i: "i < length [a..<b]" "P ([a..<b] ! i)" "p = [a..<b] ! i"
    "\<forall>j<i. \<not> P ([a..<b] ! j)"
    unfolding find_Some_iff by blast
  then have p: "p = a + i" "a + i < b" by auto
  have early: "\<forall>q. a \<le> q \<and> q < p \<longrightarrow> \<not> P q"
  proof (intro allI impI)
    fix q assume q: "a \<le> q \<and> q < p"
    then have "q - a < i" using p by auto
    with i(4) have "\<not> P ([a..<b] ! (q - a))" by blast
    moreover have "[a..<b] ! (q - a) = q" using q p by auto
    ultimately show "\<not> P q" by simp
  qed
  have "takeWhile (\<lambda>q. \<not> P q) [a..<b] = take i [a..<b]"
  proof (rule takeWhile_eq_take_P_nth)
    fix j assume "j < i" "j < length [a..<b]"
    then show "\<not> P ([a..<b] ! j)" using i(4) by blast
  next
    assume "i < length [a..<b]"
    then show "\<not> \<not> P ([a..<b] ! i)" using i(2) by simp
  qed
  also have "\<dots> = [a..<p]" using p by (simp add: take_upt)
  finally show ?thesis using p i early by auto
qed

lemma find_upt_None: "find P [a..<b] = None \<longleftrightarrow> (\<forall>q. a \<le> q \<and> q < b \<longrightarrow> \<not> P q)"
  by (auto simp: find_None_iff)


lemma validate_run:
  assumes "map_of (fs w) dbPath = Some (File (LayoutDb rows))"
    and "fault en (OpenDatabase dbPath) = None"
    and "\<forall>page. fault en (CountPageLines dbPath page) = None"
  shows "validate15LinesPerPage en dbPath N w =
     (let w1 = w\<lparr>trace := trace w @ [OpenDatabase dbPath]\<rparr> in
      case find (\<lambda>p. countPageLines rows p \<noteq> 8) [1, 2] of
        Some p \<Rightarrow>
          (Inl (LineCountViolation p 8 (countPageLines rows p)),
           w1\<lparr>trace := trace w1 @ map (CountPageLines dbPath)
                  (takeWhile (\<lambda>p. countPageLines rows p = 8) [1, 2] @ [p])\<rparr>)
      | None \<Rightarrow>
          (let w2 = w1\<lparr>trace := trace w1 @ map (CountPageLines dbPath) [1, 2]\<rparr> in
           case find (\<lambda>p. countPageLines rows p \<noteq> 15) [3..<Suc N] of
             Some p \<Rightarrow>
               (Inl (LineCountViolation p 15 (countPageLines rows p)),
                w2\<lparr>trace := trace w2 @ map (CountPageLines dbPath)
                       (takeWhile (\<lambda>p. countPageLines rows p = 15) [3..<Suc N] @ [p])\<rparr>)
           | None \<Rightarrow> (Inr (), w2\<lparr>trace := trace w2 @ map (CountPageLines dbPath) [3..<Suc N]\<rparr>)))"
proof -
  note cp = checkPages_run [OF assms(3)]
  show ?thesis
    using assms(1,2)
    by (simp add: validate15LinesPerPage_def andThen_def openDatabaseAsync_def platform_ok
          cp Let_def split: option.splits del: checkPages.simps upt_Suc find.simps)
qed

section \<open>The integrity verifier\<close>

lemma endsWith_append [simp]: "endsWith (s @ suf) suf"
  by (simp add: endsWith_def)

lemma checkCriticalFiles_fs: "fs (snd (checkCriticalFiles en ps w)) = fs w"
  by (induction ps arbitrary: w)
     (auto simp: getInfoAsync_def platform_def Let_def split: option.splits)

lemma checkCriticalFiles_run:
  assumes "\<forall>p. fault en (GetInfo p) = None" and "\<forall>p\<in>set ps. fs_exists (fs w) p"
  shows "checkCriticalFiles en ps w = (Inr (), w\<lparr>trace := trace w @ map GetInfo ps\<rparr>)"
  using assms
  by (induction ps arbitrary: w) (auto simp: getInfoAsync_def platform_def Let_def)

lemma checkCriticalFiles_error:
  "fst (checkCriticalFiles en ps v) = Inl e \<Longrightarrow> \<forall>a b. e \<noteq> AssetCountMismatch a b"
  by (induction ps arbitrary: v)
     (auto simp: getInfoAsync_def platform_def Let_def split: option.splits if_splits)

lemma font_names_count: "length (filter (\<lambda>file. endsWith file ''.ttf'') (font_names pages)) = length pages"
proof -
  have "\<And>i. endsWith (''p'' @ string_of_nat i @ ''.ttf'') ''.ttf''"
    using endsWith_append [of "''p'' @ string_of_nat i" "''.ttf''" for i] by simp
  then show ?thesis by (simp add: font_names_def)
qed

lemma verifyIntegrity_mismatch:
  assumes f: "fst (verifyIntegrity en mushafDir m w) = Inl (AssetCountMismatch a b)"
  shows "a = pages_count m \<and> a \<noteq> b
          \<and> b = length (filter (\<lambda>file. endsWith file ''.ttf'')
                          (children (fs w) (mushafDir @ ''fonts/pages/'')))"
proof -
  obtain r1 w1 where c: "checkCriticalFiles en (criticalFiles mushafDir m) w = (r1, w1)"
    by (cases "checkCriticalFiles en (criticalFiles mushafDir m) w")
  have fsw: "fs w1 = fs w"
    using checkCriticalFiles_fs [of en "criticalFiles mushafDir m" w] c by simp
  show ?thesis
  proof (cases r1)
    case (Inl e)
    then have "fst (verifyIntegrity en mushafDir m w) = Inl e"
      using c by (simp add: verifyIntegrity_def andThen_def)
    moreover have "\<forall>a b. e \<noteq> AssetCountMismatch a b"
      using checkCriticalFiles_error [of en "criticalFiles mushafDir m" w e] c Inl by simp
    ultimately show ?thesis using f by (metis sum.inject(1))
  next
    case (Inr u)
    then show ?thesis
      using f c fsw
      by (auto simp: verifyIntegrity_def andThen_def readDirectoryAsync_def platform_def Let_def
            checkFontCount_def split: option.splits if_splits)
  qed
qed

lemma verifyIntegrity_reached:
  assumes "\<forall>p. fault en (GetInfo p) = None"
    and "fault en (ReadDirectory (mushafDir @ ''fonts/pages/'')) = None"
    and "\<forall>p\<in>set (criticalFiles mushafDir m). fs_exists (fs w) p"
    and "fs_exists (fs w) (mushafDir @ ''fonts/pages/'')"
  shows "verifyIntegrity en mushafDir m w
          = (checkFontCount m (children (fs w) (mushafDir @ ''fonts/pages/'')),
             w\<lparr>trace := trace w @ map GetInfo (criticalFiles mushafDir m)
                          @ [ReadDirectory (mushafDir @ ''fonts/pages/'')]\<rparr>)"
proof -
  have "checkCriticalFiles en (criticalFiles mushafDir m) w
      = (Inr (), w\<lparr>trace := trace w @ map GetInfo (criticalFiles mushafDir m)\<rparr>)"
    using assms(1,3) by (intro checkCriticalFiles_run) auto
  with assms(2,4) show ?thesis
    by (simp add: verifyIntegrity_def andThen_def readDirectoryAsync_def platform_def Let_def)
qed

section \<open>Storage keys, paths and removal\<close>

lemma digit_val_digit_char: "d < 10 \<Longrightarrow> digit_val (digit_char d) = d"
proof -
  have "\<forall>k\<in>set [0..<10]. digit_val (digit_char k) = k"
    by code_simp
  then show "d < 10 \<Longrightarrow> digit_val (digit_char d) = d"
    by simp
qed

lemma nat_of_string_snoc: "nat_of_string (s @ [c]) = 10 * nat_of_string s + digit_val c"
  by (simp add: nat_of_string_def)

lemma nat_of_string_of_nat: "nat_of_string (string_of_nat n) = n"
proof (induction n rule: string_of_nat.induct)
  case (1 n)
  show ?case
  proof (cases "n < 10")
    case True
    then show ?thesis
      using nat_of_string_snoc [of "[]" "digit_char n"]
      by (simp add: string_of_nat.simps [of n] digit_val_digit_char nat_of_string_def)
  next
    case False
    then have "nat_of_string (string_of_nat (n div 10)) = n div 10"
      using "1.IH" by simp
    then show ?thesis
      using False
      by (simp add: string_of_nat.simps [of n] nat_of_string_snoc digit_val_digit_char)
  qed
qed

lemma string_of_nat_inj: "string_of_nat a = string_of_nat b \<Longrightarrow> a = b"
  by (metis nat_of_string_of_nat)

lemma key_installed_inj: "key_installed a = key_installed b \<Longrightarrow> a = b"
  by (simp add: key_installed_def string_of_nat_inj)

lemma key_path_inj: "key_path a = key_path b \<Longrightarrow> a = b"
  by (simp add: key_path_def string_of_nat_inj)

lemma key_installed_not_path: "key_installed a \<noteq> key_path b"
proof
  assume "key_installed a = key_path b"
  then have "last (key_installed a) = last (key_path b)" by simp
  then show False by (simp add: key_installed_def key_path_def)
qed

lemma map_of_filter_fst:
  "map_of (filter (\<lambda>e. P (fst e)) f) q = (if P q then map_of f q else None)"
  by (induction f) auto

lemma fs_remove_gone: "is_under d q \<Longrightarrow> \<not> fs_exists (fs_remove f d) q"
  using map_of_filter_fst [of "\<lambda>p. \<not> is_under d p" f q]
  by (simp add: fs_exists_def fs_remove_def)

lemma fs_remove_kept: "\<not> is_under d q \<Longrightarrow> map_of (fs_remove f d) q = map_of f q"
  using map_of_filter_fst [of "\<lambda>p. \<not> is_under d p" f q]
  by (simp add: fs_remove_def)

lemma deleteMushaf_run:
  assumes "fault en (DeleteAsync (mushafDir_of en mushafId)) = None"
    and "fault en (OpenDatabase ''mushaf_library.db'') = None"
    and "fault en (DeleteRow mushafId) = None"
    and "fault en (RemoveItem (key_installed mushafId)) = None"
    and "fault en (RemoveItem (key_path mushafId)) = None"
  shows "deleteMushaf en mushafId w =
     (Inr (),
      w\<lparr>fs := fs_remove (fs w) (mushafDir_of en mushafId),
        installed_mushafs := filter (\<lambda>r. row_id r \<noteq> mushafId) (installed_mushafs w),
        AsyncStorage := (AsyncStorage w)(key_installed mushafId := None, key_path mushafId := None),
        trace := trace w @ [DeleteAsync (mushafDir_of en mushafId), OpenDatabase ''mushaf_library.db'',
                            DeleteRow mushafId, RemoveItem (key_installed mushafId),
                            RemoveItem (key_path mushafId)]\<rparr>)"
  using assms
  by (simp add: deleteMushaf_def andThen_def deleteAsync_def openMainDatabase_def runAsync_delete_def
        removeItem_def platform_ok)

section \<open>What a run delivers to the callback\<close>

lemma callbacks_append [simp]: "callbacks (a @ b) = callbacks a @ callbacks b"
  by (simp add: callbacks_def List.map_filter_def)

lemma callbacks_Nil [simp]: "callbacks [] = []"
  by (simp add: callbacks_def List.map_filter_def)

lemma callbacks_single [simp]:
  "callbacks [ev] = (case ev of Callback p \<Rightarrow> [p] | _ \<Rightarrow> [])"
  by (cases ev) (simp_all add: callbacks_def List.map_filter_def)

lemma hoare_andThen:
  assumes "hoare P m Q E" and "\<And>x. hoare Q (f x) R E"
  shows "hoare P (andThen m f) R E"
  using assms
  by (fastforce simp: hoare_def andThen_def split: prod.splits sum.splits)

lemma hoare_weaken:
  assumes "hoare P m Q E" and "\<And>s. P' s \<Longrightarrow> P s" and "\<And>s. Q s \<Longrightarrow> Q' s" and "\<And>s. E s \<Longrightarrow> E' s"
  shows "hoare P' m Q' E'"
  using assms
  by (fastforce simp: hoare_def split: prod.splits sum.splits)

lemma silent_platform:
  assumes "\<And>p. ev \<noteq> Callback p" and "\<And>w. callbacks (trace (snd (effect w))) = callbacks (trace w)"
  shows "silent (platform en ev effect)"
  using assms
  by (cases ev) (auto simp: silent_def platform_def Let_def split: option.splits)

lemma silent_andThen:
  assumes "silent m" and "\<And>x. silent (f x)"
  shows "silent (andThen m f)"
  using assms
  by (auto simp: silent_def andThen_def split: prod.splits sum.splits) (metis snd_conv)+

lemma silent_ops:
  "silent (makeDirectoryAsync en p)" "silent (deleteAsync en p)" "silent (getInfoAsync en p)"
  "silent (readDirectoryAsync en p)" "silent (unzip en p q)" "silent (openDatabaseAsync en p)"
  "silent (getFirstAsync en p db page)" "silent (openMainDatabase en)"
  "silent (runAsync_insert en row)" "silent (runAsync_delete en i)"
  "silent (setItem en k v)" "silent (removeItem en k)" "silent (getItem en k)"
  unfolding makeDirectoryAsync_def deleteAsync_def getInfoAsync_def readDirectoryAsync_def
    unzip_def openDatabaseAsync_def getFirstAsync_def openMainDatabase_def runAsync_insert_def
    runAsync_delete_def setItem_def removeItem_def getItem_def
  by (rule silent_platform; simp split: option.splits node.splits content.splits)+


lemma silent_checkCriticalFiles: "silent (checkCriticalFiles en ps)"
proof -
  have "callbacks (trace (snd (checkCriticalFiles en ps w))) = callbacks (trace w)" for w
  proof (induction ps arbitrary: w)
    case Nil
    then show ?case by simp
  next
    case (Cons p ps)
    have g: "callbacks (trace (snd (getInfoAsync en p w))) = callbacks (trace w)"
      using silent_ops(3) [of en p] by (simp add: silent_def)
    obtain r w1 where eq: "getInfoAsync en p w = (r, w1)"
      by (cases "getInfoAsync en p w")
    with g have "callbacks (trace w1) = callbacks (trace w)" by simp
    with Cons.IH [of w1] eq show ?case
      by (cases r) auto
  qed
  then show ?thesis by (simp add: silent_def)
qed

lemma silent_verifyIntegrity: "silent (verifyIntegrity en d m)"
  unfolding verifyIntegrity_def
  by (intro silent_andThen silent_checkCriticalFiles silent_ops) (simp add: silent_def)

lemma silent_checkPages: "silent (checkPages en dbPath db required pages)"
proof -
  have "callbacks (trace (snd (checkPages en dbPath db required pages w))) = callbacks (trace w)" for w
  proof (induction pages arbitrary: w)
    case Nil
    then show ?case by simp
  next
    case (Cons p ps)
    have g: "callbacks (trace (snd (getFirstAsync en dbPath db p w))) = callbacks (trace w)"
      using silent_ops(7) [of en dbPath db p] by (simp add: silent_def)
    obtain r w1 where eq: "getFirstAsync en dbPath db p w = (r, w1)"
      by (cases "getFirstAsync en dbPath db p w")
    with g have "callbacks (trace w1) = callbacks (trace w)" by simp
    with Cons.IH [of w1] eq show ?case
      by (cases r) (auto split: option.splits)
  qed
  then show ?thesis by (simp add: silent_def)
qed

lemma silent_validate15LinesPerPage: "silent (validate15LinesPerPage en dbPath n)"
  unfolding validate15LinesPerPage_def
  by (intro silent_andThen silent_checkPages silent_ops)

lemma inWorld_silent:
  assumes "silent m" and "inWorld m s = (r, s')"
  shows "reported s' = reported s \<and> snd s' = snd s"
  using assms
  by (auto simp: silent_def inWorld_def reported_def delivered_def split: prod.splits) (metis snd_conv)

lemma report_run:
  "report en f s =
     ((case fault en (Callback (f (snd s))) of Some msg \<Rightarrow> Inl (CallbackError msg) | None \<Rightarrow> Inr ()),
      (fst s\<lparr>trace := trace (fst s) @ [Callback (f (snd s))]\<rparr>, f (snd s)))"
  by (simp add: report_def onProgress_def mutate_def Let_def split: option.splits)

lemma listener_run:
  "listener en f s = (fst s\<lparr>trace := trace (fst s) @ [Callback (f (snd s))]\<rparr>, f (snd s))"
  by (simp add: listener_def onProgress_def mutate_def Let_def split: option.splits)

lemma report_reported:
  assumes "report en f s = (r, s')"
  shows "reported s' = reported s @ [(status (f (snd s)), progress (f (snd s)))]
         \<and> snd s' = f (snd s)"
  using assms by (auto simp: report_run reported_def delivered_def)

lemma ticks_fold:
  assumes "\<And>now dp p. status (g now dp p) = status p \<and> progress (g now dp p) = phi dp"
  shows "reported (foldl (\<lambda>s' t. listener en (g (handled_at t)
                     (totalBytesWritten t / totalBytesExpectedToWrite t)) s') s ts)
           = reported s @ map (\<lambda>t. (status (snd s), phi (totalBytesWritten t / totalBytesExpectedToWrite t))) ts
         \<and> status (snd (foldl (\<lambda>s' t. listener en (g (handled_at t)
                     (totalBytesWritten t / totalBytesExpectedToWrite t)) s') s ts)) = status (snd s)
         \<and> progress (snd (foldl (\<lambda>s' t. listener en (g (handled_at t)
                     (totalBytesWritten t / totalBytesExpectedToWrite t)) s') s ts))
            = last (progress (snd s) # map (\<lambda>t. phi (totalBytesWritten t / totalBytesExpectedToWrite t)) ts)"
proof (induction ts arbitrary: s)
  case Nil
  then show ?case by simp
next
  case (Cons t ts)
  let ?s1 = "listener en (g (handled_at t) (totalBytesWritten t / totalBytesExpectedToWrite t)) s"
  have r1: "reported ?s1 = reported s @ [(status (snd s), phi (totalBytesWritten t / totalBytesExpectedToWrite t))]"
    and st1: "status (snd ?s1) = status (snd s)"
    and pr1: "progress (snd ?s1) = phi (totalBytesWritten t / totalBytesExpectedToWrite t)"
    using assms by (simp_all add: reported_def delivered_def listener_run)
  show ?case
    using Cons.IH [of ?s1] by (simp add: r1 st1 pr1)
qed

lemma downloadFile_reported:
  assumes g: "\<And>now dp p. status (g now dp p) = status p \<and> progress (g now dp p) = phi dp"
    and run: "downloadFile en u filePath (\<lambda>now dp. listener en (g now dp)) s = (r, s')"
  shows "reported s' = reported s @ map (\<lambda>p. (status (snd s), phi p)) (fractions en u)
         \<and> status (snd s') = status (snd s)
         \<and> progress (snd s') = last (progress (snd s) # map phi (fractions en u))"
proof -
  let ?s1 = "((fst s)\<lparr>trace := trace (fst s) @ [DownloadAsync u filePath]\<rparr>, snd s)"
  let ?s2 = "foldl (\<lambda>s' t. listener en (g (handled_at t)
                     (totalBytesWritten t / totalBytesExpectedToWrite t)) s') ?s1 (ticks (remote en u))"
  note f = ticks_fold [of g phi en ?s1 "ticks (remote en u)", OF g]
  have r1: "reported ?s1 = reported s" by (simp add: reported_def delivered_def)
  have "reported s' = reported ?s2 \<and> snd s' = snd ?s2"
    using run by (auto simp: downloadFile_def Let_def reported_def delivered_def split: option.splits if_splits)
  then show ?thesis
    using f r1 by (simp add: fractions_def comp_def)
qed


lemma hoare_andThen_either:
  assumes "hoare P m Q E1" and "\<And>x. hoare Q (f x) R E2"
  shows "hoare P (andThen m f) R (\<lambda>s. E1 s \<or> E2 s)"
  using assms
  by (fastforce simp: hoare_def andThen_def split: prod.splits sum.splits)

lemma hoare_inWorld:
  assumes "silent m"
  shows "hoare (observed L c) (inWorld m) (observed L c) (observed L c)"
proof -
  have "reported s' = reported s \<and> current s' = current s" if "inWorld m s = (r, s')" for s r s'
    using inWorld_silent [OF assms that] by (simp add: current_def)
  then show ?thesis
    by (auto simp: hoare_def observed_def split: prod.splits sum.splits)
qed

text \<open>A delivery that throws has been made all the same.\<close>

lemma hoare_report_thrown:
  assumes "\<And>p. (status p, progress p) = c \<Longrightarrow> (status (f p), progress (f p)) = c'"
  shows "hoare (observed L c) (report en f) (observed (L @ [c']) c')
           (\<lambda>s. observed (L @ [c']) c' s \<and> fault en (Callback (snd s)) \<noteq> None)"
  using assms
  by (auto simp: hoare_def observed_def report_run reported_def delivered_def current_def
           split: option.splits)

lemma hoare_report:
  assumes "\<And>p. (status p, progress p) = c \<Longrightarrow> (status (f p), progress (f p)) = c'"
  shows "hoare (observed L c) (report en f) (observed (L @ [c']) c') (observed (L @ [c']) c')"
  by (rule hoare_weaken [OF hoare_report_thrown [OF assms]]) auto

lemma hoare_downloadFile:
  assumes g: "\<And>now dp p. status (g now dp p) = status p \<and> progress (g now dp p) = phi dp"
  shows "hoare (observed L (st, v))
           (downloadFile en u filePath (\<lambda>now dp. listener en (g now dp)))
           (observed (L @ map (\<lambda>p. (st, phi p)) (fractions en u))
                     (st, last (v # map phi (fractions en u))))
           (observed (L @ map (\<lambda>p. (st, phi p)) (fractions en u))
                     (st, last (v # map phi (fractions en u))))"
proof -
  have "reported s' = reported s @ map (\<lambda>p. (status (snd s), phi p)) (fractions en u)
         \<and> current s' = (status (snd s), last (progress (snd s) # map phi (fractions en u)))"
    if "downloadFile en u filePath (\<lambda>now dp. listener en (g now dp)) s = (r, s')"
    for s r s'
    using downloadFile_reported [of g phi en u filePath s r s', OF g that]
    by (simp add: current_def)
  then show ?thesis
    by (auto simp: hoare_def observed_def current_def split: prod.splits sum.splits)
qed

lemma tick_shapes:
  "status (databaseTick dp p) = status p \<and> progress (databaseTick dp p) = dp * 10"
  "status (commonFontsTick dp p) = status p \<and> progress (commonFontsTick dp p) = 10 + dp * 5"
  "status (fontsTick start now dp p) = status p \<and> progress (fontsTick start now dp p) = 15 + dp * 60"
  by (simp_all add: databaseTick_def commonFontsTick_def fontsTick_def Let_def)

lemma hoare_step1:
  "hoare (observed L c) (step1 en d) (observed L c) (observed L c)"
  unfolding step1_def
  by (rule hoare_andThen [OF hoare_inWorld [OF silent_ops(1)] hoare_inWorld [OF silent_ops(1)]])

text \<open>
  A step that opens with a callback and then transfers a file throws after the opening
  callback alone, or after the progress events as well.
\<close>

lemma hoare_step2:
  "hoare (observed L (st, v)) (step2 en m d)
     (observed (L @ [(downloading, v)]
                  @ map (\<lambda>p. (downloading, p * 10)) (fractions en (database_sqlite (download_urls m))))
               (downloading, last (v # map (\<lambda>p. p * 10) (fractions en (database_sqlite (download_urls m))))))
     (\<lambda>s. observed (L @ [(downloading, v)]) (downloading, v) s
        \<or> observed (L @ [(downloading, v)]
                  @ map (\<lambda>p. (downloading, p * 10)) (fractions en (database_sqlite (download_urls m))))
               (downloading, last (v # map (\<lambda>p. p * 10) (fractions en (database_sqlite (download_urls m))))) s)"
proof -
  have a: "hoare (observed L (st, v))
      (report en (\<lambda>p. p\<lparr>status := downloading,
                      current_step := Telechargement @ '' de la base de donn'' @ e_acute @ ''es...''\<rparr>))
      (observed (L @ [(downloading, v)]) (downloading, v))
      (observed (L @ [(downloading, v)]) (downloading, v))"
    by (rule hoare_report) auto
  have b: "hoare (observed (L @ [(downloading, v)]) (downloading, v))
      (downloadFile en (database_sqlite (download_urls m)) (d @ ''mushaf_layout.db'')
         (\<lambda>now downloadProgress. listener en (databaseTick downloadProgress)))
      (observed ((L @ [(downloading, v)])
                  @ map (\<lambda>p. (downloading, p * 10)) (fractions en (database_sqlite (download_urls m))))
               (downloading, last (v # map (\<lambda>p. p * 10) (fractions en (database_sqlite (download_urls m))))))
      (observed ((L @ [(downloading, v)])
                  @ map (\<lambda>p. (downloading, p * 10)) (fractions en (database_sqlite (download_urls m))))
               (downloading, last (v # map (\<lambda>p. p * 10) (fractions en (database_sqlite (download_urls m))))))"
    by (rule hoare_downloadFile [of "\<lambda>now. databaseTick" "\<lambda>p. p * 10"]) (simp add: tick_shapes)
  show ?thesis
    unfolding step2_def
    using hoare_andThen_either [OF a b] by simp
qed


lemma hoare_step3:
  "hoare (observed L (st, v)) (step3 en m d)
     (observed (L @ [(st, v)]
                  @ map (\<lambda>p. (st, 10 + p * 5)) (fractions en (common_fonts_zip (download_urls m))))
               (st, last (v # map (\<lambda>p. 10 + p * 5) (fractions en (common_fonts_zip (download_urls m))))))
     (\<lambda>s. observed (L @ [(st, v)]) (st, v) s
        \<or> observed (L @ [(st, v)]
                  @ map (\<lambda>p. (st, 10 + p * 5)) (fractions en (common_fonts_zip (download_urls m))))
               (st, last (v # map (\<lambda>p. 10 + p * 5) (fractions en (common_fonts_zip (download_urls m))))) s)"
proof -
  have a: "hoare (observed L (st, v))
      (report en (\<lambda>p. p\<lparr>current_step := Telechargement @ '' des polices communes...''\<rparr>))
      (observed (L @ [(st, v)]) (st, v)) (observed (L @ [(st, v)]) (st, v))"
    by (rule hoare_report) auto
  have b: "hoare (observed (L @ [(st, v)]) (st, v))
      (downloadFile en (common_fonts_zip (download_urls m)) (d @ ''common_fonts.zip'')
         (\<lambda>now downloadProgress. listener en (commonFontsTick downloadProgress)))
      (observed ((L @ [(st, v)])
                  @ map (\<lambda>p. (st, 10 + p * 5)) (fractions en (common_fonts_zip (download_urls m))))
               (st, last (v # map (\<lambda>p. 10 + p * 5) (fractions en (common_fonts_zip (download_urls m))))))
      (observed ((L @ [(st, v)])
                  @ map (\<lambda>p. (st, 10 + p * 5)) (fractions en (common_fonts_zip (download_urls m))))
               (st, last (v # map (\<lambda>p. 10 + p * 5) (fractions en (common_fonts_zip (download_urls m))))))"
    by (rule hoare_downloadFile [of "\<lambda>now. commonFontsTick" "\<lambda>p. 10 + p * 5"]) (simp add: tick_shapes)
  show ?thesis
    unfolding step3_def
    using hoare_andThen_either [OF a b] by simp
qed

lemma hoare_step4:
  "hoare (observed L (st, v)) (step4 en m d)
     (observed (L @ [(st, v)]
                  @ map (\<lambda>p. (st, 15 + p * 60)) (fractions en (fonts_zip (download_urls m))))
               (st, last (v # map (\<lambda>p. 15 + p * 60) (fractions en (fonts_zip (download_urls m))))))
     (\<lambda>s. observed (L @ [(st, v)]) (st, v) s
        \<or> observed (L @ [(st, v)]
                  @ map (\<lambda>p. (st, 15 + p * 60)) (fractions en (fonts_zip (download_urls m))))
               (st, last (v # map (\<lambda>p. 15 + p * 60) (fractions en (fonts_zip (download_urls m))))) s)"
proof -
  have a: "hoare (observed L (st, v))
      (report en (\<lambda>p. p\<lparr>current_step := Telechargement @ '' des '' @ string_of_nat (pages_count m)
                                               @ '' polices...''\<rparr>))
      (observed (L @ [(st, v)]) (st, v)) (observed (L @ [(st, v)]) (st, v))"
    by (rule hoare_report) auto
  have b: "hoare (observed (L @ [(st, v)]) (st, v))
      (downloadFile en (fonts_zip (download_urls m)) (d @ ''fonts.zip'')
         (\<lambda>now downloadProgress. listener en (fontsTick (startTime en) now downloadProgress)))
      (observed ((L @ [(st, v)])
                  @ map (\<lambda>p. (st, 15 + p * 60)) (fractions en (fonts_zip (download_urls m))))
               (st, last (v # map (\<lambda>p. 15 + p * 60) (fractions en (fonts_zip (download_urls m))))))
      (observed ((L @ [(st, v)])
                  @ map (\<lambda>p. (st, 15 + p * 60)) (fractions en (fonts_zip (download_urls m))))
               (st, last (v # map (\<lambda>p. 15 + p * 60) (fractions en (fonts_zip (download_urls m))))))"
    by (rule hoare_downloadFile [of "fontsTick (startTime en)" "\<lambda>p. 15 + p * 60"]) (simp add: tick_shapes)
  show ?thesis
    unfolding step4_def
    using hoare_andThen_either [OF a b] by simp
qed

lemma hoare_step5:
  "hoare (observed L (st, v)) (step5 en d)
     (observed (L @ [(extracting, 75)]) (extracting, 75))
     (observed (L @ [(extracting, 75)]) (extracting, 75))"
proof -
  have a: "hoare (observed L (st, v))
      (report en (\<lambda>p. p\<lparr>status := extracting,
                      current_step := ''Extraction des polices communes...'',
                      progress := 75\<rparr>))
      (observed (L @ [(extracting, 75)]) (extracting, 75))
      (observed (L @ [(extracting, 75)]) (extracting, 75))"
    by (rule hoare_report) auto
  show ?thesis
    unfolding step5_def
    by (rule hoare_andThen [OF a hoare_andThen [OF hoare_inWorld [OF silent_ops(5)]
              hoare_inWorld [OF silent_ops(2)]]])
qed

lemma hoare_step6:
  "hoare (observed L (st, v)) (step6 en m d)
     (observed (L @ [(st, 80), (st, 95)]) (st, 95))
     (\<lambda>s. observed (L @ [(st, 80)]) (st, 80) s \<or> observed (L @ [(st, 80), (st, 95)]) (st, 95) s)"
proof -
  have a: "hoare (observed L (st, v))
      (report en (\<lambda>p. p\<lparr>current_step := ''Extraction des '' @ string_of_nat (pages_count m)
                                               @ '' polices...'',
                      progress := 80\<rparr>))
      (observed (L @ [(st, 80)]) (st, 80)) (observed (L @ [(st, 80)]) (st, 80))"
    by (rule hoare_report) auto
  have b: "hoare (observed (L @ [(st, 80)]) (st, 80)) (report en (\<lambda>p. p\<lparr>progress := 95\<rparr>))
      (observed ((L @ [(st, 80)]) @ [(st, 95)]) (st, 95))
      (observed ((L @ [(st, 80)]) @ [(st, 95)]) (st, 95))"
    by (rule hoare_report) auto
  have front: "hoare (observed L (st, v))
      (andThen (report en (\<lambda>p. p\<lparr>current_step := ''Extraction des '' @ string_of_nat (pages_count m)
                                               @ '' polices...'',
                      progress := 80\<rparr>)) (\<lambda>_.
       andThen (inWorld (unzip en (d @ ''fonts.zip'') (d @ ''fonts/pages/''))) (\<lambda>_.
       inWorld (deleteAsync en (d @ ''fonts.zip'')))))
      (observed (L @ [(st, 80)]) (st, 80)) (observed (L @ [(st, 80)]) (st, 80))"
    by (rule hoare_andThen [OF a hoare_andThen [OF hoare_inWorld [OF silent_ops(5)]
              hoare_inWorld [OF silent_ops(2)]]])
  have assoc: "step6 en m d =
      andThen (andThen (report en (\<lambda>p. p\<lparr>current_step := ''Extraction des '' @ string_of_nat (pages_count m)
                                               @ '' polices...'',
                      progress := 80\<rparr>)) (\<lambda>_.
       andThen (inWorld (unzip en (d @ ''fonts.zip'') (d @ ''fonts/pages/''))) (\<lambda>_.
       inWorld (deleteAsync en (d @ ''fonts.zip''))))) (\<lambda>_. report en (\<lambda>p. p\<lparr>progress := 95\<rparr>))"
    by (rule ext) (simp add: step6_def andThen_def split: prod.splits sum.splits)
  show ?thesis
    unfolding assoc
    using hoare_andThen_either [OF front b] by simp
qed

lemma hoare_step7:
  "hoare (observed L (st, v)) (step7 en m d)
     (observed (L @ [(verifying, v)]) (verifying, v))
     (observed (L @ [(verifying, v)]) (verifying, v))"
proof -
  have a: "hoare (observed L (st, v))
      (report en (\<lambda>p. p\<lparr>status := verifying,
                      current_step := ''V'' @ e_acute @ ''rification de l'' @ [CHR 0x27] @ ''int''
                                        @ e_acute @ ''grit'' @ e_acute @ ''...''\<rparr>))
      (observed (L @ [(verifying, v)]) (verifying, v))
      (observed (L @ [(verifying, v)]) (verifying, v))"
    by (rule hoare_report) auto
  show ?thesis
    unfolding step7_def
    by (rule hoare_andThen [OF a hoare_inWorld [OF silent_verifyIntegrity]])
qed

lemma hoare_step8:
  "hoare (observed L c) (step8 en m d) (observed L c) (observed L c)"
  unfolding step8_def by (rule hoare_inWorld [OF silent_validate15LinesPerPage])

lemma hoare_step9:
  "hoare (observed L c) (step9 en m d) (observed L c) (observed L c)"
  unfolding step9_def
  by (rule hoare_andThen [OF hoare_inWorld [OF silent_ops(8)] hoare_inWorld [OF silent_ops(9)]])

lemma hoare_step10:
  "hoare (observed L c) (step10 en m d) (observed L c) (observed L c)"
  unfolding step10_def
  by (rule hoare_andThen [OF hoare_inWorld [OF silent_ops(11)] hoare_inWorld [OF silent_ops(11)]])

lemma hoare_finished:
  "hoare (observed L (st, v)) (finished en) (observed (L @ [(completed, 100)]) (completed, 100))
     (\<lambda>s. observed (L @ [(completed, 100)]) (completed, 100) s \<and> fault en (Callback (snd s)) \<noteq> None)"
  unfolding finished_def by (rule hoare_report_thrown) auto


lemma last_through: "last (x # xs @ y # ys) = last (y # ys)"
  by simp

text \<open>
  Where the \<open>try\<close> block stands when it ends. When it throws, the callback has been given a
  beginning of the schedule and the object is not marked completed, or the callback has been
  given all of it and the completed snapshot too, and has thrown on that.
\<close>

lemma tryBlock_reported:
  "hoare (observed base (initializing, 0)) (tryBlock en m d)
     (\<lambda>s. reported s = base @ schedule en m @ [(completed, 100)])
     (\<lambda>s. \<exists>L. reported s = base @ L \<and> snd (current s) = last (0 # map snd L)
               \<and> (prefix L (schedule en m) \<and> fst (current s) \<noteq> completed
                  \<or> L = schedule en m @ [(completed, 100)] \<and> fst (current s) = completed
                    \<and> fault en (Callback (snd s)) \<noteq> None))"
proof -
  define F1 where "F1 = fractions en (database_sqlite (download_urls m))"
  define F2 where "F2 = fractions en (common_fonts_zip (download_urls m))"
  define F3 where "F3 = fractions en (fonts_zip (download_urls m))"
  define v1 where "v1 = last (0 # map (\<lambda>p. p * 10) F1)"
  define v2 where "v2 = last (v1 # map (\<lambda>p. 10 + p * 5) F2)"
  define v3 where "v3 = last (v2 # map (\<lambda>p. 15 + p * 60) F3)"
  define L2o where "L2o = [(downloading, 0::real)]"
  define L2 where "L2 = L2o @ map (\<lambda>p. (downloading, p * 10)) F1"
  define L3o where "L3o = L2 @ [(downloading, v1)]"
  define L3 where "L3 = L3o @ map (\<lambda>p. (downloading, 10 + p * 5)) F2"
  define L4o where "L4o = L3 @ [(downloading, v2)]"
  define L4 where "L4 = L4o @ map (\<lambda>p. (downloading, 15 + p * 60)) F3"
  define L5 where "L5 = L4 @ [(extracting, 75::real)]"
  define L6f where "L6f = L5 @ [(extracting, 80::real)]"
  define L6 where "L6 = L5 @ [(extracting, 80::real), (extracting, 95)]"
  define L7 where "L7 = L6 @ [(verifying, 95::real)]"
  define E where "E = (\<lambda>s. \<exists>L. reported s = base @ L \<and> snd (current s) = last (0 # map snd L)
               \<and> (prefix L (schedule en m) \<and> fst (current s) \<noteq> completed
                  \<or> L = schedule en m @ [(completed, 100)] \<and> fst (current s) = completed
                    \<and> fault en (Callback (snd s)) \<noteq> None))"
  have sched: "schedule en m = L7"
    by (simp add: schedule_def Let_def L7_def L6_def L5_def L4_def L4o_def L3_def L3o_def L2_def
          L2o_def F1_def F2_def F3_def v1_def v2_def)
  have pre: "prefix [] L7" "prefix L2 L7" "prefix L3 L7" "prefix L4 L7" "prefix L5 L7"
    "prefix L6f L7" "prefix L6 L7" "prefix L7 L7" "prefix L2o L7" "prefix L3o L7" "prefix L4o L7"
    by (simp_all add: L7_def L6_def L6f_def L5_def L4_def L4o_def L3_def L3o_def L2_def)
  have lasts: "last (0 # map snd L2) = v1" "last (0 # map snd L3) = v2" "last (0 # map snd L4) = v3"
    "last (0 # map snd L5) = 75" "last (0 # map snd L6f) = 80" "last (0 # map snd L6) = 95"
    "last (0 # map snd L7) = 95" "last (0 # map snd L2o) = 0" "last (0 # map snd L3o) = v1"
    "last (0 # map snd L4o) = v2"
    by (simp_all add: L7_def L6_def L6f_def L5_def L4_def L4o_def L3_def L3o_def L2_def L2o_def
          v1_def v2_def v3_def comp_def)
  have toE: "observed (base @ L) (st, v) s \<Longrightarrow> prefix L L7 \<Longrightarrow> last (0 # map snd L) = v
      \<Longrightarrow> st \<noteq> completed \<Longrightarrow> E s"
    for L st v s
    unfolding E_def observed_def sched current_def by auto
  have s1: "hoare (observed base (initializing, 0)) (step1 en d)
      (observed base (initializing, 0)) (observed (base @ []) (initializing, 0))"
    using hoare_step1 [of base "(initializing, 0)" en d] by simp
  have t1: "hoare (observed base (initializing, 0)) (step1 en d) (observed base (initializing, 0)) E"
    by (rule hoare_weaken [OF s1]) (assumption, assumption, erule toE [OF _ pre(1)], simp, simp)
  have s2: "hoare (observed base (initializing, 0)) (step2 en m d)
      (observed (base @ L2) (downloading, v1))
      (\<lambda>s. observed (base @ L2o) (downloading, 0) s \<or> observed (base @ L2) (downloading, v1) s)"
    using hoare_step2 [of base initializing 0 en m d] by (simp add: L2_def L2o_def v1_def F1_def)
  have t2: "hoare (observed base (initializing, 0)) (step2 en m d) (observed (base @ L2) (downloading, v1)) E"
    by (rule hoare_weaken [OF s2])
       (assumption, assumption, erule disjE, erule toE [OF _ pre(9) lasts(8)], simp,
        erule toE [OF _ pre(2) lasts(1)], simp)
  have s3: "hoare (observed (base @ L2) (downloading, v1)) (step3 en m d)
      (observed (base @ L3) (downloading, v2))
      (\<lambda>s. observed (base @ L3o) (downloading, v1) s \<or> observed (base @ L3) (downloading, v2) s)"
    using hoare_step3 [of "base @ L2" downloading v1 en m d] by (simp add: L3_def L3o_def v2_def F2_def)
  have t3: "hoare (observed (base @ L2) (downloading, v1)) (step3 en m d) (observed (base @ L3) (downloading, v2)) E"
    by (rule hoare_weaken [OF s3])
       (assumption, assumption, erule disjE, erule toE [OF _ pre(10) lasts(9)], simp,
        erule toE [OF _ pre(3) lasts(2)], simp)
  have s4: "hoare (observed (base @ L3) (downloading, v2)) (step4 en m d)
      (observed (base @ L4) (downloading, v3))
      (\<lambda>s. observed (base @ L4o) (downloading, v2) s \<or> observed (base @ L4) (downloading, v3) s)"
    using hoare_step4 [of "base @ L3" downloading v2 en m d] by (simp add: L4_def L4o_def v3_def F3_def)
  have t4: "hoare (observed (base @ L3) (downloading, v2)) (step4 en m d) (observed (base @ L4) (downloading, v3)) E"
    by (rule hoare_weaken [OF s4])
       (assumption, assumption, erule disjE, erule toE [OF _ pre(11) lasts(10)], simp,
        erule toE [OF _ pre(4) lasts(3)], simp)
  have s5: "hoare (observed (base @ L4) (downloading, v3)) (step5 en d)
      (observed (base @ L5) (extracting, 75)) (observed (base @ L5) (extracting, 75))"
    using hoare_step5 [of "base @ L4" downloading v3 en d] by (simp add: L5_def)
  have t5: "hoare (observed (base @ L4) (downloading, v3)) (step5 en d) (observed (base @ L5) (extracting, 75)) E"
    by (rule hoare_weaken [OF s5]) (assumption, assumption, erule toE [OF _ pre(5) lasts(4)], simp)
  have s6: "hoare (observed (base @ L5) (extracting, 75)) (step6 en m d)
      (observed (base @ L6) (extracting, 95))
      (\<lambda>s. observed (base @ L6f) (extracting, 80) s \<or> observed (base @ L6) (extracting, 95) s)"
    using hoare_step6 [of "base @ L5" extracting 75 en m d] by (simp add: L6_def L6f_def)
  have t6: "hoare (observed (base @ L5) (extracting, 75)) (step6 en m d) (observed (base @ L6) (extracting, 95)) E"
    by (rule hoare_weaken [OF s6])
       (assumption, assumption, erule disjE, erule toE [OF _ pre(6) lasts(5)], simp,
        erule toE [OF _ pre(7) lasts(6)], simp)
  have s7: "hoare (observed (base @ L6) (extracting, 95)) (step7 en m d)
      (observed (base @ L7) (verifying, 95)) (observed (base @ L7) (verifying, 95))"
    using hoare_step7 [of "base @ L6" extracting 95 en m d] by (simp add: L7_def)
  have t7: "hoare (observed (base @ L6) (extracting, 95)) (step7 en m d) (observed (base @ L7) (verifying, 95)) E"
    by (rule hoare_weaken [OF s7]) (assumption, assumption, erule toE [OF _ pre(8) lasts(7)], simp)
  have t8: "hoare (observed (base @ L7) (verifying, 95)) (step8 en m d) (observed (base @ L7) (verifying, 95)) E"
    by (rule hoare_weaken [OF hoare_step8 [of "base @ L7" "(verifying, 95)" en m d]])
       (assumption, assumption, erule toE [OF _ pre(8) lasts(7)], simp)
  have t9: "hoare (observed (base @ L7) (verifying, 95)) (step9 en m d) (observed (base @ L7) (verifying, 95)) E"
    by (rule hoare_weaken [OF hoare_step9 [of "base @ L7" "(verifying, 95)" en m d]])
       (assumption, assumption, erule toE [OF _ pre(8) lasts(7)], simp)
  have t10: "hoare (observed (base @ L7) (verifying, 95)) (step10 en m d) (observed (base @ L7) (verifying, 95)) E"
    by (rule hoare_weaken [OF hoare_step10 [of "base @ L7" "(verifying, 95)" en m d]])
       (assumption, assumption, erule toE [OF _ pre(8) lasts(7)], simp)
  have s11: "hoare (observed (base @ L7) (verifying, 95)) (finished en)
      (observed ((base @ L7) @ [(completed, 100)]) (completed, 100))
      (\<lambda>s. observed ((base @ L7) @ [(completed, 100)]) (completed, 100) s
           \<and> fault en (Callback (snd s)) \<noteq> None)"
    by (rule hoare_finished)
  have t11: "hoare (observed (base @ L7) (verifying, 95)) (finished en)
      (\<lambda>s. reported s = base @ schedule en m @ [(completed, 100)]) E"
    by (rule hoare_weaken [OF s11]) (auto simp: observed_def sched E_def current_def)
  have "hoare (observed base (initializing, 0)) (tryBlock en m d)
      (\<lambda>s. reported s = base @ schedule en m @ [(completed, 100)]) E"
    unfolding tryBlock_def
    by (intro hoare_andThen [OF t1] hoare_andThen [OF t2] hoare_andThen [OF t3]
          hoare_andThen [OF t4] hoare_andThen [OF t5] hoare_andThen [OF t6]
          hoare_andThen [OF t7] hoare_andThen [OF t8] hoare_andThen [OF t9]
          hoare_andThen [OF t10] t11)
  then show ?thesis
    unfolding E_def .
qed


text \<open>The three ways \<open>downloadMushaf\<close> ends, after the \<open>finally\<close> block.\<close>

lemma downloadMushaf_cases:
  "tryBlock en m (mushafDir_of en (id' m))
      (w\<lparr>progressCallbacks := insert (id' m) (progressCallbacks w)\<rparr>, initialProgress m) = (Inr u, s)
    \<Longrightarrow> downloadMushaf en m w = (Inr u, finallyBlock m (fst s))"
  "tryBlock en m (mushafDir_of en (id' m))
      (w\<lparr>progressCallbacks := insert (id' m) (progressCallbacks w)\<rparr>, initialProgress m) = (Inl e, s)
    \<Longrightarrow> fault en (Callback (failedSnapshot e (snd s))) = None
    \<Longrightarrow> downloadMushaf en m w
          = (Inl e, finallyBlock m (cleanupPartialDownload en (mushafDir_of en (id' m))
               ((fst s)\<lparr>trace := trace (fst s) @ [Callback (failedSnapshot e (snd s))]\<rparr>)))"
  "tryBlock en m (mushafDir_of en (id' m))
      (w\<lparr>progressCallbacks := insert (id' m) (progressCallbacks w)\<rparr>, initialProgress m) = (Inl e, s)
    \<Longrightarrow> fault en (Callback (failedSnapshot e (snd s))) = Some msg
    \<Longrightarrow> downloadMushaf en m w
          = (Inl (CallbackError msg),
             finallyBlock m ((fst s)\<lparr>trace := trace (fst s) @ [Callback (failedSnapshot e (snd s))]\<rparr>))"
  by (simp_all add: downloadMushaf_def Let_def catchBlock_def report_run)

lemma delivered_finallyBlock [simp]: "delivered (finallyBlock m w) = delivered w"
  by (simp add: delivered_def finallyBlock_def)

lemma delivered_cleanup [simp]: "delivered (cleanupPartialDownload en d w) = delivered w"
  using silent_ops(2) [of en d]
  by (simp add: cleanupPartialDownload_def silent_def delivered_def)

text \<open>The failed snapshot is delivered whether or not the callback throws on it.\<close>

lemma downloadMushaf_thrown:
  assumes "tryBlock en m (mushafDir_of en (id' m))
      (w\<lparr>progressCallbacks := insert (id' m) (progressCallbacks w)\<rparr>, initialProgress m) = (Inl e, s)"
  shows "(\<exists>e'. fst (downloadMushaf en m w) = Inl e')
         \<and> delivered (snd (downloadMushaf en m w)) = reported s @ [(failed, progress (snd s))]"
proof (cases "fault en (Callback (failedSnapshot e (snd s)))")
  case None
  show ?thesis
    unfolding downloadMushaf_cases(2) [OF assms None]
    by (simp add: reported_def) (simp add: delivered_def failedSnapshot_def)
next
  case (Some msg)
  show ?thesis
    unfolding downloadMushaf_cases(3) [OF assms Some]
    by (simp add: reported_def) (simp add: delivered_def failedSnapshot_def)
qed

lemma downloadMushaf_delivered:
  "(fst (downloadMushaf en m w) = Inr () \<longrightarrow>
      delivered (snd (downloadMushaf en m w)) = delivered w @ schedule en m @ [(completed, 100)])
   \<and> (\<forall>e. fst (downloadMushaf en m w) = Inl e \<longrightarrow>
        (\<exists>L. delivered (snd (downloadMushaf en m w))
               = delivered w @ L @ [(failed, last (0 # map snd L))]
           \<and> (prefix L (schedule en m)
              \<or> L = schedule en m @ [(completed, 100)]
                \<and> (\<exists>p. status p = completed \<and> fault en (Callback p) \<noteq> None))))"
proof -
  let ?d = "mushafDir_of en (id' m)"
  let ?s0 = "(w\<lparr>progressCallbacks := insert (id' m) (progressCallbacks w)\<rparr>, initialProgress m)"
  have start: "observed (delivered w) (initializing, 0) ?s0"
    by (simp add: observed_def reported_def delivered_def current_def initialProgress_def)
  note h = tryBlock_reported [of "delivered w" en m ?d, unfolded hoare_def, rule_format, OF start]
  obtain r s where ts: "tryBlock en m ?d ?s0 = (r, s)"
    by (cases "tryBlock en m ?d ?s0")
  show ?thesis
  proof (cases r)
    case (Inr u)
    with h ts have "reported s = delivered w @ schedule en m @ [(completed, 100)]"
      by simp
    moreover have "downloadMushaf en m w = (Inr u, finallyBlock m (fst s))"
      using downloadMushaf_cases(1) ts Inr by simp
    ultimately show ?thesis
      by (simp add: reported_def)
  next
    case (Inl e)
    with h ts obtain L where L: "reported s = delivered w @ L"
      "snd (current s) = last (0 # map snd L)"
      "prefix L (schedule en m) \<and> fst (current s) \<noteq> completed
         \<or> L = schedule en m @ [(completed, 100)] \<and> fst (current s) = completed
           \<and> fault en (Callback (snd s)) \<noteq> None"
      by auto
    have ts': "tryBlock en m ?d ?s0 = (Inl e, s)"
      using ts Inl by simp
    have del: "delivered (snd (downloadMushaf en m w))
        = delivered w @ L @ [(failed, last (0 # map snd L))]"
      using downloadMushaf_thrown [OF ts'] L(1,2) by (simp add: current_def)
    have thrown: "\<exists>e'. fst (downloadMushaf en m w) = Inl e'"
      using downloadMushaf_thrown [OF ts'] by simp
    have "prefix L (schedule en m)
          \<or> L = schedule en m @ [(completed, 100)]
            \<and> (\<exists>p. status p = completed \<and> fault en (Callback p) \<noteq> None)"
      using L(3) by (auto simp: current_def)
    with del thrown show ?thesis
      by auto
  qed
qed

section \<open>Steps that meet no obstacle\<close>

lemma quiet_sample: "fault sample_env ev = None"
  by (simp add: sample_env_def)

lemma hoare_never:
  assumes "hoare P m Q (\<lambda>_. False)"
  shows "hoare P m Q E"
  by (rule hoare_weaken [OF assms]) simp_all

lemma fold_keeps:
  "fs (fst (foldl (\<lambda>s' t. listener en (g t) s') s ts)) = fs (fst s)"
  "installed_mushafs (fst (foldl (\<lambda>s' t. listener en (g t) s') s ts)) = installed_mushafs (fst s)"
  by (induction ts arbitrary: s) (simp_all add: listener_run)

lemma fold_keeps_status:
  assumes "\<And>t p. status (g t p) = status p"
  shows "status (snd (foldl (\<lambda>s' t. listener en (g t) s') s ts)) = status (snd s)"
  using assms by (induction ts arbitrary: s) (simp_all add: listener_run)

lemma downloadFile_ok:
  assumes "fault en (DownloadAsync u filePath) = None" "result_status (remote en u) = Some 200"
    and "\<And>now dp p. status (g now dp p) = status p"
  shows "hoare (holding G C) (downloadFile en u filePath (\<lambda>now dp. listener en (g now dp)))
           (holding (fs_put G filePath (File (payload (remote en u)))) C) (\<lambda>_. False)"
proof -
  note k = fold_keeps [where g = "\<lambda>t. g (handled_at t) (totalBytesWritten t / totalBytesExpectedToWrite t)"]
  note k' = fold_keeps_status [where g = "\<lambda>t. g (handled_at t) (totalBytesWritten t / totalBytesExpectedToWrite t)",
      OF assms(3)]
  show ?thesis
    using assms(1,2) by (simp add: hoare_def holding_def downloadFile_def Let_def k k')
qed

lemma report_ok:
  assumes "calm en" and "\<And>p. status p \<noteq> completed \<Longrightarrow> status (f p) \<noteq> completed"
  shows "hoare (holding G C) (report en f) (holding G C) (\<lambda>_. False)"
  using assms by (simp add: hoare_def holding_def report_run calm_def)

lemma step1_ok:
  assumes "fault en (MakeDirectory d) = None" "fault en (MakeDirectory (d @ ''fonts/'')) = None"
  shows "hoare (holding G C) (step1 en d)
           (holding (fs_put (fs_put G d Directory) (d @ ''fonts/'') Directory) C) (\<lambda>_. False)"
  using assms
  by (simp add: hoare_def holding_def step1_def andThen_def inWorld_def makeDirectoryAsync_def
        platform_def Let_def)

lemma step2_ok:
  assumes "fault en (DownloadAsync (database_sqlite (download_urls m)) (d @ ''mushaf_layout.db'')) = None"
    and "result_status (remote en (database_sqlite (download_urls m))) = Some 200"
    and "calm en"
  shows "hoare (holding G C) (step2 en m d)
           (holding (fs_put G (d @ ''mushaf_layout.db'')
                       (File (payload (remote en (database_sqlite (download_urls m)))))) C)
           (\<lambda>_. False)"
  unfolding step2_def
  by (rule hoare_andThen [OF report_ok [OF assms(3)] downloadFile_ok [OF assms(1,2)]])
     (simp_all add: tick_shapes)

lemma step3_ok:
  assumes "fault en (DownloadAsync (common_fonts_zip (download_urls m)) (d @ ''common_fonts.zip'')) = None"
    and "result_status (remote en (common_fonts_zip (download_urls m))) = Some 200"
    and "calm en"
  shows "hoare (holding G C) (step3 en m d)
           (holding (fs_put G (d @ ''common_fonts.zip'')
                       (File (payload (remote en (common_fonts_zip (download_urls m)))))) C)
           (\<lambda>_. False)"
  unfolding step3_def
  by (rule hoare_andThen [OF report_ok [OF assms(3)] downloadFile_ok [OF assms(1,2)]])
     (simp_all add: tick_shapes)

lemma step4_ok:
  assumes "fault en (DownloadAsync (fonts_zip (download_urls m)) (d @ ''fonts.zip'')) = None"
    and "result_status (remote en (fonts_zip (download_urls m))) = Some 200"
    and "calm en"
  shows "hoare (holding G C) (step4 en m d)
           (holding (fs_put G (d @ ''fonts.zip'')
                       (File (payload (remote en (fonts_zip (download_urls m)))))) C)
           (\<lambda>_. False)"
  unfolding step4_def
  by (rule hoare_andThen [OF report_ok [OF assms(3)] downloadFile_ok [OF assms(1,2)]])
     (simp_all add: tick_shapes)

lemma step5_ok:
  assumes "fault en (Unzip (d @ ''common_fonts.zip'') (d @ ''fonts/common/'')) = None"
    and "fault en (DeleteAsync (d @ ''common_fonts.zip'')) = None"
    and "map_of G (d @ ''common_fonts.zip'') = Some (File (ZipArchive entries))"
    and "calm en"
  shows "hoare (holding G C) (step5 en d)
           (holding (fs_remove (foldl (\<lambda>f n. fs_put f ((d @ ''fonts/common/'') @ n) (File Blob))
                                 (fs_put G (d @ ''fonts/common/'') Directory) entries)
                       (d @ ''common_fonts.zip'')) C)
           (\<lambda>_. False)"
  using assms
  by (simp add: hoare_def holding_def step5_def andThen_def inWorld_def report_run unzip_def
        deleteAsync_def platform_def Let_def calm_def)

lemma step6_ok:
  assumes "fault en (Unzip (d @ ''fonts.zip'') (d @ ''fonts/pages/'')) = None"
    and "fault en (DeleteAsync (d @ ''fonts.zip'')) = None"
    and "map_of G (d @ ''fonts.zip'') = Some (File (ZipArchive entries))"
    and "calm en"
  shows "hoare (holding G C) (step6 en m d)
           (holding (fs_remove (foldl (\<lambda>f n. fs_put f ((d @ ''fonts/pages/'') @ n) (File Blob))
                                 (fs_put G (d @ ''fonts/pages/'') Directory) entries)
                       (d @ ''fonts.zip'')) C)
           (\<lambda>_. False)"
  using assms
  by (simp add: hoare_def holding_def step6_def andThen_def inWorld_def report_run unzip_def
        deleteAsync_def platform_def Let_def calm_def)

lemma inWorld_ok:
  assumes "\<And>w. fs w = G \<Longrightarrow> installed_mushafs w = C \<Longrightarrow>
             (\<exists>v. fst (m w) = Inr v) \<and> fs (snd (m w)) = G' \<and> installed_mushafs (snd (m w)) = C'"
  shows "hoare (holding G C) (inWorld m) (holding G' C') (\<lambda>_. False)"
proof -
  have "case inWorld m s of (Inl e, s') \<Rightarrow> False | (Inr x, s') \<Rightarrow> holding G' C' s'"
    if "holding G C s" for s
  proof -
    obtain r w' where mw: "m (fst s) = (r, w')" by (cases "m (fst s)")
    from that assms [of "fst s"] mw obtain v where "r = Inr v" "fs w' = G'" "installed_mushafs w' = C'"
      by (auto simp: holding_def)
    then show ?thesis
      using mw that by (simp add: inWorld_def holding_def)
  qed
  then show ?thesis
    by (simp add: hoare_def)
qed

lemma step7_ok:
  assumes "\<forall>p. fault en (GetInfo p) = None"
    and "fault en (ReadDirectory (d @ ''fonts/pages/'')) = None"
    and "\<forall>p\<in>set (criticalFiles d m). fs_exists G p"
    and "fs_exists G (d @ ''fonts/pages/'')"
    and "checkFontCount m (children G (d @ ''fonts/pages/'')) = Inr ()"
    and "calm en"
  shows "hoare (holding G C) (step7 en m d) (holding G C) (\<lambda>_. False)"
proof -
  have v: "hoare (holding G C) (inWorld (verifyIntegrity en d m)) (holding G C) (\<lambda>_. False)"
  proof (rule inWorld_ok)
    fix w :: world assume w: "fs w = G" "installed_mushafs w = C"
    show "(\<exists>v. fst (verifyIntegrity en d m w) = Inr v) \<and> fs (snd (verifyIntegrity en d m w)) = G
        \<and> installed_mushafs (snd (verifyIntegrity en d m w)) = C"
      using verifyIntegrity_reached [of en d m w] assms(1-5) w by simp
  qed
  show ?thesis
    unfolding step7_def by (rule hoare_andThen [OF report_ok [OF assms(6)] v]) simp
qed

lemma step8_ok:
  assumes "map_of G (d @ ''mushaf_layout.db'') = Some (File (LayoutDb rows))"
    and "fault en (OpenDatabase (d @ ''mushaf_layout.db'')) = None"
    and "\<forall>page. fault en (CountPageLines (d @ ''mushaf_layout.db'') page) = None"
    and "countPageLines rows 1 = 8" "countPageLines rows 2 = 8"
    and "\<forall>page\<in>{3..pages_count m}. countPageLines rows page = 15"
  shows "hoare (holding G C) (step8 en m d) (holding G C) (\<lambda>_. False)"
  unfolding step8_def
proof (rule inWorld_ok)
  fix w :: world assume w: "fs w = G" "installed_mushafs w = C"
  let ?V = "validate15LinesPerPage en (d @ ''mushaf_layout.db'') (pages_count m) w"
  have f15: "find (\<lambda>p. countPageLines rows p \<noteq> 15) [3..<Suc (pages_count m)] = None"
    unfolding find_upt_None using assms(6) by auto
  have f8: "find (\<lambda>p. countPageLines rows p \<noteq> 8) [1, 2] = None"
    using assms(4,5) by simp
  have db: "map_of (fs w) (d @ ''mushaf_layout.db'') = Some (File (LayoutDb rows))"
    using assms(1) w by simp
  have "?V = (Inr (), w\<lparr>trace := trace w @ [OpenDatabase (d @ ''mushaf_layout.db'')]
                @ map (CountPageLines (d @ ''mushaf_layout.db'')) [1, 2]
                @ map (CountPageLines (d @ ''mushaf_layout.db'')) [3..<Suc (pages_count m)]\<rparr>)"
    unfolding validate_run [OF db assms(2,3)] Let_def f8 f15 by simp
  then show "(\<exists>v. fst ?V = Inr v) \<and> fs (snd ?V) = G \<and> installed_mushafs (snd ?V) = C"
    using w by simp
qed

lemma step9_ok:
  assumes "fault en (OpenDatabase ''mushaf_library.db'') = None"
    and "fault en (InsertRow (installedRow en m d)) = None"
    and "id' m \<notin> row_id ` set C"
  shows "hoare (holding G C) (step9 en m d) (holding G (C @ [installedRow en m d])) (\<lambda>_. False)"
  using assms
  by (simp add: hoare_def holding_def step9_def andThen_def inWorld_def openMainDatabase_def
        runAsync_insert_def platform_def Let_def installedRow_def)

lemma step10_ok:
  assumes "fault en (SetItem (key_installed (id' m)) ''true'') = None"
    and "fault en (SetItem (key_path (id' m)) d) = None"
  shows "hoare (holding G C) (step10 en m d) (holding G C) (\<lambda>_. False)"
  using assms
  by (simp add: hoare_def holding_def step10_def andThen_def inWorld_def setItem_def
        platform_def Let_def)

text \<open>The last callback of the \<open>try\<close> block returns or throws, as the surroundings say.\<close>

lemma finished_ok:
  "hoare (holding G C) (finished en)
     (\<lambda>s. status (snd s) = completed \<and> fault en (Callback (snd s)) = None)
     (\<lambda>s. status (snd s) = completed \<and> fault en (Callback (snd s)) \<noteq> None)"
  by (simp add: hoare_def finished_def report_run split: option.splits)

text \<open>
  In surroundings that differ from the sample ones in what the callback does at most, and
  where the callback returns on every snapshot not marked completed, the \<open>try\<close> block
  reaches its last callback.
\<close>

lemma sample_tryBlock:
  assumes rem: "remote en = remote sample_env"
    and dir: "documentDirectory en = documentDirectory sample_env"
    and plat: "\<And>ev. (\<And>p. ev \<noteq> Callback p) \<Longrightarrow> fault en ev = None"
    and calm: "calm en"
  shows "hoare (holding [] []) (tryBlock en small_mushaf (mushafDir_of en (id' small_mushaf)))
           (\<lambda>s. status (snd s) = completed \<and> fault en (Callback (snd s)) = None)
           (\<lambda>s. status (snd s) = completed \<and> fault en (Callback (snd s)) \<noteq> None)"
proof -
  define d where "d = mushafDir_of sample_env (id' small_mushaf)"
  define G1 :: filesystem where "G1 = fs_put (fs_put [] d Directory) (d @ ''fonts/'') Directory"
  define G2 where "G2 = fs_put G1 (d @ ''mushaf_layout.db'')
      (File (payload (remote en (database_sqlite (download_urls small_mushaf)))))"
  define G3 where "G3 = fs_put G2 (d @ ''common_fonts.zip'')
      (File (payload (remote en (common_fonts_zip (download_urls small_mushaf)))))"
  define G4 where "G4 = fs_put G3 (d @ ''fonts.zip'')
      (File (payload (remote en (fonts_zip (download_urls small_mushaf)))))"
  define G5 where "G5 = fs_remove (foldl (\<lambda>f n. fs_put f ((d @ ''fonts/common/'') @ n) (File Blob))
      (fs_put G4 (d @ ''fonts/common/'') Directory) [''bismillah.ttf'', ''surah_names.ttf''])
      (d @ ''common_fonts.zip'')"
  define G6 where "G6 = fs_remove (foldl (\<lambda>f n. fs_put f ((d @ ''fonts/pages/'') @ n) (File Blob))
      (fs_put G5 (d @ ''fonts/pages/'') Directory) [''p1.ttf'', ''p2.ttf'', ''p3.ttf''])
      (d @ ''fonts.zip'')"
  note G = G6_def G5_def G4_def G3_def G2_def G1_def rem d_def
  have dd: "mushafDir_of en (id' small_mushaf) = d"
    by (simp add: d_def mushafDir_of_def dir)
  have q: "fault en (MakeDirectory x) = None" "fault en (DownloadAsync u x) = None"
    "fault en (Unzip x y) = None" "fault en (DeleteAsync x) = None" "fault en (GetInfo x) = None"
    "fault en (ReadDirectory x) = None" "fault en (OpenDatabase x) = None"
    "fault en (CountPageLines x n) = None" "fault en (InsertRow row) = None"
    "fault en (SetItem x y) = None" for x y u n row
    by (rule plat, simp)+
  have ok: "result_status (remote en u) = Some 200" for u
    by (simp add: rem sample_env_def)
  have c5: "map_of G4 (d @ ''common_fonts.zip'') = Some (File (ZipArchive [''bismillah.ttf'', ''surah_names.ttf'']))"
    unfolding G by code_simp
  have c6: "map_of G5 (d @ ''fonts.zip'') = Some (File (ZipArchive [''p1.ttf'', ''p2.ttf'', ''p3.ttf'']))"
    unfolding G by code_simp
  have c7: "\<forall>p\<in>set (criticalFiles d small_mushaf). fs_exists G6 p"
    "fs_exists G6 (d @ ''fonts/pages/'')"
    "checkFontCount small_mushaf (children G6 (d @ ''fonts/pages/'')) = Inr ()"
    unfolding G by code_simp+
  have c8: "map_of G6 (d @ ''mushaf_layout.db'') = Some (File (LayoutDb sample_rows))"
    unfolding G by code_simp
  have counts: "countPageLines sample_rows 1 = 8" "countPageLines sample_rows 2 = 8"
    "\<forall>page\<in>{3..pages_count small_mushaf}. countPageLines sample_rows page = 15"
    by code_simp+
  have t1: "hoare (holding [] []) (step1 en d) (holding G1 []) (\<lambda>_. False)"
    unfolding G1_def by (rule step1_ok [OF q(1) q(1)])
  have t2: "hoare (holding G1 []) (step2 en small_mushaf d) (holding G2 []) (\<lambda>_. False)"
    unfolding G2_def by (rule step2_ok [OF q(2) ok calm])
  have t3: "hoare (holding G2 []) (step3 en small_mushaf d) (holding G3 []) (\<lambda>_. False)"
    unfolding G3_def by (rule step3_ok [OF q(2) ok calm])
  have t4: "hoare (holding G3 []) (step4 en small_mushaf d) (holding G4 []) (\<lambda>_. False)"
    unfolding G4_def by (rule step4_ok [OF q(2) ok calm])
  have t5: "hoare (holding G4 []) (step5 en d) (holding G5 []) (\<lambda>_. False)"
    unfolding G5_def by (rule step5_ok [OF q(3) q(4) c5 calm])
  have t6: "hoare (holding G5 []) (step6 en small_mushaf d) (holding G6 []) (\<lambda>_. False)"
    unfolding G6_def by (rule step6_ok [OF q(3) q(4) c6 calm])
  have t7: "hoare (holding G6 []) (step7 en small_mushaf d) (holding G6 []) (\<lambda>_. False)"
    by (rule step7_ok [OF _ q(6) c7 calm]) (simp add: q)
  have t8: "hoare (holding G6 []) (step8 en small_mushaf d) (holding G6 []) (\<lambda>_. False)"
    by (rule step8_ok [OF c8 q(7) _ counts]) (simp add: q)
  have t9: "hoare (holding G6 []) (step9 en small_mushaf d)
      (holding G6 ([] @ [installedRow en small_mushaf d])) (\<lambda>_. False)"
    by (rule step9_ok [OF q(7) q(9)]) simp
  have t10: "hoare (holding G6 ([] @ [installedRow en small_mushaf d]))
      (step10 en small_mushaf d)
      (holding G6 ([] @ [installedRow en small_mushaf d])) (\<lambda>_. False)"
    by (rule step10_ok [OF q(10) q(10)])
  show ?thesis
    unfolding tryBlock_def dd
    by (intro hoare_andThen [OF hoare_never [OF t1]] hoare_andThen [OF hoare_never [OF t2]]
          hoare_andThen [OF hoare_never [OF t3]] hoare_andThen [OF hoare_never [OF t4]]
          hoare_andThen [OF hoare_never [OF t5]] hoare_andThen [OF hoare_never [OF t6]]
          hoare_andThen [OF hoare_never [OF t7]] hoare_andThen [OF hoare_never [OF t8]]
          hoare_andThen [OF hoare_never [OF t9]] hoare_andThen [OF hoare_never [OF t10]]
          finished_ok)
qed

lemma sample_success:
  "fst (downloadMushaf sample_env small_mushaf empty_world) = Inr ()"
proof -
  let ?d = "mushafDir_of sample_env (id' small_mushaf)"
  let ?s0 = "(empty_world\<lparr>progressCallbacks :=
        insert (id' small_mushaf) (progressCallbacks empty_world)\<rparr>, initialProgress small_mushaf)"
  have run: "hoare (holding [] []) (tryBlock sample_env small_mushaf ?d)
           (\<lambda>s. status (snd s) = completed \<and> fault sample_env (Callback (snd s)) = None)
           (\<lambda>s. status (snd s) = completed \<and> fault sample_env (Callback (snd s)) \<noteq> None)"
    by (rule sample_tryBlock) (simp_all add: quiet_sample calm_def)
  have start: "holding [] [] ?s0"
    by (simp add: holding_def empty_world_def initialProgress_def)
  obtain r s where ts: "tryBlock sample_env small_mushaf ?d ?s0 = (r, s)"
    by (cases "tryBlock sample_env small_mushaf ?d ?s0")
  from run [unfolded hoare_def, rule_format, OF start] ts
  obtain u where "r = Inr u"
    by (cases r) (auto simp: quiet_sample)
  with ts show ?thesis
    using downloadMushaf_cases(1) [of sample_env small_mushaf empty_world u s]
    by simp
qed

section \<open>The percentages of the schedule\<close>

lemma sorted_snoc_last: "sorted xs \<Longrightarrow> sorted (xs @ [last (d # xs)])"
  for xs :: "real list"
proof (cases "xs = []")
  case True
  then show ?thesis by simp
next
  case False
  assume s: "sorted xs"
  have "\<forall>x\<in>set xs. x \<le> last xs"
  proof
    fix x assume "x \<in> set xs"
    then obtain i where i: "i < length xs" "xs ! i = x" by (auto simp: in_set_conv_nth)
    have "xs ! i \<le> xs ! (length xs - 1)"
      using s i False by (intro sorted_nth_mono) auto
    then show "x \<le> last xs" using i False by (simp add: last_conv_nth)
  qed
  with s False show ?thesis by (simp add: sorted_append)
qed

lemma sorted_append_bound:
  fixes xs ys :: "real list"
  assumes "sorted xs" "sorted ys" "\<forall>x\<in>set xs. x \<le> b" "\<forall>y\<in>set ys. b \<le> y"
  shows "sorted (xs @ ys)"
  using assms by (fastforce simp: sorted_append)

lemma last_in_range:
  fixes xs :: "real list"
  assumes "lo \<le> d" "d \<le> hi" "\<forall>x\<in>set xs. lo \<le> x \<and> x \<le> hi"
  shows "lo \<le> last (d # xs) \<and> last (d # xs) \<le> hi"
  using assms by (cases "xs = []") auto

lemma sorted_map_affine:
  fixes F :: "real list"
  assumes "sorted F" "0 \<le> k"
  shows "sorted (map (\<lambda>p. a + p * k) F)"
  using assms by (induction F) (auto simp: mult_right_mono)

lemma schedule_sorted:
  assumes F1: "sorted (fractions en (database_sqlite (download_urls m)))"
      "\<forall>p\<in>set (fractions en (database_sqlite (download_urls m))). 0 \<le> p \<and> p \<le> 1"
    and F2: "sorted (fractions en (common_fonts_zip (download_urls m)))"
      "\<forall>p\<in>set (fractions en (common_fonts_zip (download_urls m))). 0 \<le> p \<and> p \<le> 1"
    and F3: "sorted (fractions en (fonts_zip (download_urls m)))"
      "\<forall>p\<in>set (fractions en (fonts_zip (download_urls m))). 0 \<le> p \<and> p \<le> 1"
  shows "sorted (map snd (schedule en m)) \<and> (\<forall>c\<in>set (schedule en m). 0 \<le> snd c \<and> snd c \<le> 95)
         \<and> hd (schedule en m) = (downloading, 0) \<and> schedule en m \<noteq> []"
proof -
  define A where "A = map (\<lambda>p. p * 10) (fractions en (database_sqlite (download_urls m)))"
  define B where "B = map (\<lambda>p. 10 + p * 5) (fractions en (common_fonts_zip (download_urls m)))"
  define C where "C = map (\<lambda>p. 15 + p * 60) (fractions en (fonts_zip (download_urls m)))"
  define v1 where "v1 = last (0 # A)"
  define v2 where "v2 = last (v1 # B)"
  have vals: "map snd (schedule en m) = (((((0 # A) @ [v1]) @ B) @ [v2]) @ C) @ [75, 80, 95, 95]"
    by (simp add: schedule_def Let_def A_def B_def C_def v1_def v2_def comp_def)
  have sA: "sorted A" and rA: "\<forall>x\<in>set A. 0 \<le> x \<and> x \<le> 10"
    using F1 sorted_map_affine [of _ 10 0] by (auto simp: A_def)
  have sB: "sorted B" and rB: "\<forall>x\<in>set B. 10 \<le> x \<and> x \<le> 15"
    using F2 sorted_map_affine [of _ 5 10] by (auto simp: B_def)
  have sC: "sorted C" and rC: "\<forall>x\<in>set C. 15 \<le> x \<and> x \<le> 75"
    using F3 sorted_map_affine [of _ 60 15] by (auto simp: C_def)
  have rv1: "0 \<le> v1 \<and> v1 \<le> 10"
    unfolding v1_def using rA by (intro last_in_range) auto
  have rv2: "0 \<le> v2 \<and> v2 \<le> 15"
    unfolding v2_def using rB rv1 by (intro last_in_range) auto
  have s1: "sorted (0 # A)" using sA rA by simp
  have s2: "sorted ((0 # A) @ [v1])"
    unfolding v1_def using sorted_snoc_last [OF s1, of 0] by simp
  have s3: "sorted (((0 # A) @ [v1]) @ B)"
  proof (rule sorted_append_bound [OF s2 sB, where b = 10])
    show "\<forall>x\<in>set ((0 # A) @ [v1]). x \<le> 10" using rA rv1 by auto
    show "\<forall>y\<in>set B. 10 \<le> y" using rB by auto
  qed
  have l3: "last (0 # ((0 # A) @ [v1]) @ B) = v2"
    by (simp add: v2_def)
  have s4: "sorted ((((0 # A) @ [v1]) @ B) @ [v2])"
    using sorted_snoc_last [OF s3, of 0] l3 by simp
  have s5: "sorted (((((0 # A) @ [v1]) @ B) @ [v2]) @ C)"
  proof (rule sorted_append_bound [OF s4 sC, where b = 15])
    show "\<forall>x\<in>set ((((0 # A) @ [v1]) @ B) @ [v2]). x \<le> 15" using rA rB rv1 rv2 by auto
    show "\<forall>y\<in>set C. 15 \<le> y" using rC by auto
  qed
  have tail: "sorted [75, 80, 95, 95 :: real]" by simp
  have s6: "sorted ((((((0 # A) @ [v1]) @ B) @ [v2]) @ C) @ [75, 80, 95, 95])"
  proof (rule sorted_append_bound [OF s5 tail, where b = 75])
    show "\<forall>x\<in>set (((((0 # A) @ [v1]) @ B) @ [v2]) @ C). x \<le> 75" using rA rB rC rv1 rv2 by auto
    show "\<forall>y\<in>set [75, 80, 95, 95 :: real]. 75 \<le> y" by simp
  qed
  have range: "\<forall>x\<in>set (map snd (schedule en m)). 0 \<le> x \<and> x \<le> 95"
    unfolding vals using rA rB rC rv1 rv2 by auto
  have "hd (schedule en m) = (downloading, 0)" "schedule en m \<noteq> []"
    by (simp_all add: schedule_def Let_def)
  with s6 range show ?thesis
    unfolding vals [symmetric] by auto
qed

section \<open>The sample installation\<close>

lemma sample_urls:
  "database_sqlite (download_urls small_mushaf) = ''https://cdn.qul.tarteel.ai/databases/qpc_v2_layout.db''"
  "common_fonts_zip (download_urls small_mushaf) = ''https://cdn.qul.tarteel.ai/fonts/common_fonts.zip''"
  "fonts_zip (download_urls small_mushaf) = ''https://cdn.qul.tarteel.ai/fonts/qpc_v2_fonts.zip''"
  by (simp_all add: small_mushaf_def qpc_v2_def)

lemma sample_fractions:
  "fractions sample_env ''https://cdn.qul.tarteel.ai/databases/qpc_v2_layout.db'' = [1 / 2, 1]"
  "fractions sample_env ''https://cdn.qul.tarteel.ai/fonts/common_fonts.zip'' = [1 / 2, 1]"
  "fractions sample_env ''https://cdn.qul.tarteel.ai/fonts/qpc_v2_fonts.zip'' = [1 / 2, 1]"
  by (simp_all add: fractions_def sample_env_def)

lemma sample_schedule:
  "schedule sample_env small_mushaf =
     [(downloading, 0), (downloading, 5), (downloading, 10), (downloading, 10),
      (downloading, 25 / 2), (downloading, 15), (downloading, 15), (downloading, 45),
      (downloading, 75), (extracting, 75), (extracting, 80), (extracting, 95), (verifying, 95)]"
  by (simp add: schedule_def Let_def sample_urls sample_fractions)

lemma sample_ticks:
  "\<forall>t\<in>set (ticks (remote sample_env u)). totalBytesExpectedToWrite t \<noteq> 0"
  by (simp add: sample_env_def)

section \<open>The catalog and the storage along a run\<close>

lemma keeps_platform:
  assumes "\<And>w. installed_mushafs (snd (effect w)) = installed_mushafs w
              \<and> AsyncStorage (snd (effect w)) = AsyncStorage w"
  shows "keeps (platform en ev effect)"
  using assms
  by (auto simp: keeps_def platform_def Let_def split: option.splits)

lemma keeps_andThen:
  assumes "keeps m" and "\<And>x. keeps (f x)"
  shows "keeps (andThen m f)"
proof -
  have "installed_mushafs (snd (andThen m f w)) = installed_mushafs w
        \<and> AsyncStorage (snd (andThen m f w)) = AsyncStorage w" for w
  proof -
    obtain r w1 where mw: "m w = (r, w1)" by (cases "m w")
    have k1: "installed_mushafs w1 = installed_mushafs w \<and> AsyncStorage w1 = AsyncStorage w"
      using assms(1) mw by (auto simp: keeps_def dest: spec [of _ w])
    show ?thesis
    proof (cases r)
      case (Inl e)
      then show ?thesis using mw k1 by (simp add: andThen_def)
    next
      case (Inr x)
      have "installed_mushafs (snd (f x w1)) = installed_mushafs w1
          \<and> AsyncStorage (snd (f x w1)) = AsyncStorage w1"
        using assms(2) [of x] by (simp add: keeps_def)
      then show ?thesis using mw k1 Inr by (simp add: andThen_def)
    qed
  qed
  then show ?thesis by (simp add: keeps_def)
qed

lemma keeps_ops:
  "keeps (makeDirectoryAsync en p)" "keeps (deleteAsync en p)" "keeps (getInfoAsync en p)"
  "keeps (readDirectoryAsync en p)" "keeps (unzip en p q)" "keeps (openDatabaseAsync en p)"
  "keeps (getFirstAsync en p db page)" "keeps (openMainDatabase en)"
  unfolding makeDirectoryAsync_def deleteAsync_def getInfoAsync_def readDirectoryAsync_def
    unzip_def openDatabaseAsync_def getFirstAsync_def openMainDatabase_def
  by (rule keeps_platform; simp split: option.splits node.splits content.splits)+

lemma keeps_checkCriticalFiles: "keeps (checkCriticalFiles en ps)"
proof -
  have "installed_mushafs (snd (checkCriticalFiles en ps w)) = installed_mushafs w
        \<and> AsyncStorage (snd (checkCriticalFiles en ps w)) = AsyncStorage w" for w
  proof (induction ps arbitrary: w)
    case Nil
    then show ?case by simp
  next
    case (Cons p ps)
    obtain r w1 where eq: "getInfoAsync en p w = (r, w1)"
      by (cases "getInfoAsync en p w")
    have "installed_mushafs w1 = installed_mushafs w \<and> AsyncStorage w1 = AsyncStorage w"
      using keeps_ops(3) [of en p] eq by (auto simp: keeps_def dest: spec [of _ w])
    with Cons.IH [of w1] eq show ?case
      by (cases r) auto
  qed
  then show ?thesis by (simp add: keeps_def)
qed

lemma keeps_verifyIntegrity: "keeps (verifyIntegrity en d m)"
  unfolding verifyIntegrity_def
  by (intro keeps_andThen keeps_checkCriticalFiles keeps_ops) (simp add: keeps_def)

lemma keeps_checkPages: "keeps (checkPages en dbPath db required pages)"
proof -
  have "installed_mushafs (snd (checkPages en dbPath db required pages w)) = installed_mushafs w
        \<and> AsyncStorage (snd (checkPages en dbPath db required pages w)) = AsyncStorage w" for w
  proof (induction pages arbitrary: w)
    case Nil
    then show ?case by simp
  next
    case (Cons p ps)
    obtain r w1 where eq: "getFirstAsync en dbPath db p w = (r, w1)"
      by (cases "getFirstAsync en dbPath db p w")
    have "installed_mushafs w1 = installed_mushafs w \<and> AsyncStorage w1 = AsyncStorage w"
      using keeps_ops(7) [of en dbPath db p] eq by (auto simp: keeps_def dest: spec [of _ w])
    with Cons.IH [of w1] eq show ?case
      by (cases r) (auto split: option.splits)
  qed
  then show ?thesis by (simp add: keeps_def)
qed

lemma keeps_validate15LinesPerPage: "keeps (validate15LinesPerPage en dbPath n)"
  unfolding validate15LinesPerPage_def
  by (intro keeps_andThen keeps_checkPages keeps_ops)

lemma recording_inWorld:
  assumes "keeps m"
  shows "hoare (recording C S) (inWorld m) (recording C S) (\<lambda>_. True)"
proof -
  have "case inWorld m s of (Inl e, s') \<Rightarrow> True | (Inr x, s') \<Rightarrow> recording C S s'"
    if "recording C S s" for s
  proof -
    obtain r w' where mw: "m (fst s) = (r, w')" by (cases "m (fst s)")
    have "installed_mushafs w' = installed_mushafs (fst s) \<and> AsyncStorage w' = AsyncStorage (fst s)"
      using assms mw by (auto simp: keeps_def dest: spec [of _ "fst s"])
    with that mw show ?thesis
      by (cases r) (simp_all add: inWorld_def recording_def)
  qed
  then show ?thesis by (simp add: hoare_def)
qed

lemma recording_report: "hoare (recording C S) (report en f) (recording C S) (\<lambda>_. True)"
  by (simp add: hoare_def recording_def report_run split: option.splits)

lemma fold_keeps_storage:
  "AsyncStorage (fst (foldl (\<lambda>s' t. listener en (g t) s') s ts)) = AsyncStorage (fst s)"
  by (induction ts arbitrary: s) (simp_all add: listener_run)

lemma recording_downloadFile:
  "hoare (recording C S) (downloadFile en u filePath (\<lambda>now dp. listener en (g now dp)))
     (recording C S) (\<lambda>_. True)"
proof -
  note k = fold_keeps(2) [where g = "\<lambda>t. g (handled_at t) (totalBytesWritten t / totalBytesExpectedToWrite t)"]
    fold_keeps_storage [where g = "\<lambda>t. g (handled_at t) (totalBytesWritten t / totalBytesExpectedToWrite t)"]
  show ?thesis
    by (simp add: hoare_def recording_def downloadFile_def Let_def k split: option.splits)
qed


lemma recording_step1: "hoare (recording C S) (step1 en d) (recording C S) (\<lambda>_. True)"
  unfolding step1_def
  by (rule hoare_andThen [OF recording_inWorld [OF keeps_ops(1)] recording_inWorld [OF keeps_ops(1)]])

lemma recording_step2: "hoare (recording C S) (step2 en m d) (recording C S) (\<lambda>_. True)"
  unfolding step2_def by (rule hoare_andThen [OF recording_report recording_downloadFile])

lemma recording_step3: "hoare (recording C S) (step3 en m d) (recording C S) (\<lambda>_. True)"
  unfolding step3_def by (rule hoare_andThen [OF recording_report recording_downloadFile])

lemma recording_step4: "hoare (recording C S) (step4 en m d) (recording C S) (\<lambda>_. True)"
  unfolding step4_def by (rule hoare_andThen [OF recording_report recording_downloadFile])

lemma recording_step5: "hoare (recording C S) (step5 en d) (recording C S) (\<lambda>_. True)"
  unfolding step5_def
  by (rule hoare_andThen [OF recording_report hoare_andThen [OF recording_inWorld [OF keeps_ops(5)]
            recording_inWorld [OF keeps_ops(2)]]])

lemma recording_step6: "hoare (recording C S) (step6 en m d) (recording C S) (\<lambda>_. True)"
  unfolding step6_def
  by (rule hoare_andThen [OF recording_report hoare_andThen [OF recording_inWorld [OF keeps_ops(5)]
            hoare_andThen [OF recording_inWorld [OF keeps_ops(2)] recording_report]]])

lemma recording_step7: "hoare (recording C S) (step7 en m d) (recording C S) (\<lambda>_. True)"
  unfolding step7_def
  by (rule hoare_andThen [OF recording_report recording_inWorld [OF keeps_verifyIntegrity]])

lemma recording_step8: "hoare (recording C S) (step8 en m d) (recording C S) (\<lambda>_. True)"
  unfolding step8_def by (rule recording_inWorld [OF keeps_validate15LinesPerPage])

lemma recording_step9:
  "hoare (recording C S) (step9 en m d)
     (\<lambda>s. recording (C @ [installedRow en m d]) S s \<and> id' m \<notin> row_id ` set C) (\<lambda>_. True)"
  by (auto simp: hoare_def recording_def step9_def andThen_def inWorld_def openMainDatabase_def
        runAsync_insert_def platform_def Let_def installedRow_def split: option.splits)

lemma recording_step10:
  "hoare (\<lambda>s. recording C S s \<and> X) (step10 en m d)
     (\<lambda>s. recording C (S(key_installed (id' m) \<mapsto> ''true'', key_path (id' m) \<mapsto> d)) s \<and> X)
     (\<lambda>_. True)"
  by (auto simp: hoare_def recording_def step10_def andThen_def inWorld_def setItem_def
        platform_def Let_def split: option.splits)

lemma recording_finished:
  "hoare (\<lambda>s. recording C S s \<and> X) (finished en) (\<lambda>s. recording C S s \<and> X) (\<lambda>_. True)"
  by (simp add: hoare_def recording_def finished_def report_run split: option.splits)

lemma tryBlock_recording:
  "hoare (recording C S) (tryBlock en m d)
     (\<lambda>s. recording (C @ [installedRow en m d])
             (S(key_installed (id' m) \<mapsto> ''true'', key_path (id' m) \<mapsto> d)) s
           \<and> id' m \<notin> row_id ` set C)
     (\<lambda>_. True)"
  unfolding tryBlock_def
  by (intro hoare_andThen [OF recording_step1] hoare_andThen [OF recording_step2]
        hoare_andThen [OF recording_step3] hoare_andThen [OF recording_step4]
        hoare_andThen [OF recording_step5] hoare_andThen [OF recording_step6]
        hoare_andThen [OF recording_step7] hoare_andThen [OF recording_step8]
        hoare_andThen [OF recording_step9] hoare_andThen [OF recording_step10]
        recording_finished)

lemma downloadMushaf_success:
  assumes "fst (downloadMushaf en m w) = Inr ()"
  shows "installed_mushafs (snd (downloadMushaf en m w))
           = installed_mushafs w @ [installedRow en m (mushafDir_of en (id' m))]
         \<and> id' m \<notin> row_id ` set (installed_mushafs w)
         \<and> AsyncStorage (snd (downloadMushaf en m w))
           = (AsyncStorage w)(key_installed (id' m) \<mapsto> ''true'',
                              key_path (id' m) \<mapsto> mushafDir_of en (id' m))"
proof -
  let ?d = "mushafDir_of en (id' m)"
  let ?s0 = "(w\<lparr>progressCallbacks := insert (id' m) (progressCallbacks w)\<rparr>, initialProgress m)"
  have start: "recording (installed_mushafs w) (AsyncStorage w) ?s0"
    by (simp add: recording_def)
  obtain r s where ts: "tryBlock en m ?d ?s0 = (r, s)"
    by (cases "tryBlock en m ?d ?s0")
  note h = tryBlock_recording [of "installed_mushafs w" "AsyncStorage w" en m ?d,
      unfolded hoare_def, rule_format, OF start]
  show ?thesis
  proof (cases r)
    case (Inl e)
    with ts have "\<exists>e'. fst (downloadMushaf en m w) = Inl e'"
      using downloadMushaf_thrown [of en m w e s] by simp
    with assms show ?thesis by auto
  next
    case (Inr u)
    with ts have run: "downloadMushaf en m w = (Inr u, finallyBlock m (fst s))"
      using downloadMushaf_cases(1) [of en m w u s] by simp
    from h ts Inr have "recording (installed_mushafs w @ [installedRow en m ?d])
             ((AsyncStorage w)(key_installed (id' m) \<mapsto> ''true'', key_path (id' m) \<mapsto> ?d)) s
           \<and> id' m \<notin> row_id ` set (installed_mushafs w)"
      by simp
    then show ?thesis
      by (simp add: run recording_def finallyBlock_def)
  qed
qed

section \<open>The structural line-count check\<close>

text \<open>
  C1. With a readable layout database, \<open>validate15LinesPerPage\<close> succeeds exactly when
  pages 1 and 2 have 8 rows each and every page from 3 to \<open>N\<close> has 15 rows. A successful
  check has asked the row count of pages 1, 2, 3, ..., \<open>N\<close> in this order, none skipped. A
  failing check throws the line-count violation of the first offending page, carrying that
  page, the number of rows required there and the number observed, having asked the pages
  up to that one.
\<close>

theorem validate15LinesPerPage_gate:
  assumes db: "map_of (fs w) dbPath = Some (File (LayoutDb rows))"
    and open_ok: "fault en (OpenDatabase dbPath) = None"
    and query_ok: "\<forall>page. fault en (CountPageLines dbPath page) = None"
  shows
    "((fst (validate15LinesPerPage en dbPath N w) = Inr ()) =
        (countPageLines rows 1 = 8 \<and> countPageLines rows 2 = 8
         \<and> (\<forall>page\<in>{3..N}. countPageLines rows page = 15)))
     \<and> (fst (validate15LinesPerPage en dbPath N w) = Inr () \<longrightarrow>
          trace (snd (validate15LinesPerPage en dbPath N w)) =
            trace w @ OpenDatabase dbPath # map (CountPageLines dbPath) ([1, 2] @ [3..<Suc N])
          \<and> (\<forall>page\<in>{1..N}. CountPageLines dbPath page
                 \<in> set (trace (snd (validate15LinesPerPage en dbPath N w)))))
     \<and> (\<forall>e. fst (validate15LinesPerPage en dbPath N w) = Inl e \<longrightarrow>
          (\<exists>page. page \<in> {1, 2} \<union> {3..N}
             \<and> e = LineCountViolation page (if page \<le> 2 then 8 else 15) (countPageLines rows page)
             \<and> countPageLines rows page \<noteq> (if page \<le> 2 then 8 else 15)
             \<and> (\<forall>q\<in>{1..<page}. countPageLines rows q = (if q \<le> 2 then 8 else 15))
             \<and> trace (snd (validate15LinesPerPage en dbPath N w)) =
                 trace w @ OpenDatabase dbPath # map (CountPageLines dbPath) [1..<Suc page]))"
proof -
  let ?V = "validate15LinesPerPage en dbPath N w"
  let ?c = "countPageLines rows"
  note run = validate_run [OF db open_ok query_ok, of N]
  have u12: "[1..<Suc 1] = [1::nat]" "[1..<Suc 2] = [1, 2::nat]"
    by (simp_all add: upt_rec)
  consider (p1) "?c 1 \<noteq> 8" | (p2) "?c 1 = 8" "?c 2 \<noteq> 8"
    | (rest) "?c 1 = 8" "?c 2 = 8"
        "find (\<lambda>p. ?c p \<noteq> 15) [3..<Suc N] = None"
    | (late) p where "?c 1 = 8" "?c 2 = 8"
        "find (\<lambda>p. ?c p \<noteq> 15) [3..<Suc N] = Some p"
    by (cases "find (\<lambda>p. ?c p \<noteq> 15) [3..<Suc N]") auto
  then show ?thesis
  proof cases
    case p1
    then have "?V = (Inl (LineCountViolation 1 8 (?c 1)),
        w\<lparr>trace := trace w @ [OpenDatabase dbPath, CountPageLines dbPath 1]\<rparr>)"
      by (simp add: run)
    with p1 show ?thesis
      by (simp add: u12) 
  next
    case p2
    then have "?V = (Inl (LineCountViolation 2 8 (?c 2)),
        w\<lparr>trace := trace w @ [OpenDatabase dbPath, CountPageLines dbPath 1, CountPageLines dbPath 2]\<rparr>)"
      by (simp add: run)
    moreover have "\<forall>q\<in>{1..<2::nat}. ?c q = (if q \<le> 2 then 8 else 15)"
    proof
      fix q :: nat assume "q \<in> {1..<2}"
      then have "q = 1" by auto
      then show "?c q = (if q \<le> 2 then 8 else 15)" using p2(1) by simp
    qed
    moreover have "[Suc 0..<2] = [Suc 0]" by (simp add: upt_rec)
    ultimately show ?thesis
      using p2 by (auto simp add: u12 intro!: exI[of _ 2])
  next
    case rest
    then have V: "?V = (Inr (),
        w\<lparr>trace := trace w @ OpenDatabase dbPath # map (CountPageLines dbPath) ([1, 2] @ [3..<Suc N])\<rparr>)"
      by (simp add: run del: upt_Suc)
    have all15: "\<forall>page\<in>{3..N}. ?c page = 15"
      using rest(3) unfolding find_upt_None by (auto simp del: upt_Suc)
    have "\<forall>page\<in>{1..N}. page = 1 \<or> page = 2 \<or> page \<in> set [3..<Suc N]"
      by auto
    then have mem: "\<forall>page\<in>{1..N}. CountPageLines dbPath page \<in> set (trace (snd ?V))"
      unfolding V by (auto simp del: upt_Suc)
    show ?thesis
      using rest(1,2) all15 mem by (simp add: V del: upt_Suc)
  next
    case late
    note f = find_upt_Some [OF late(3)]
    have tw: "takeWhile (\<lambda>p. ?c p = 15) [3..<Suc N] = [3..<p]"
      using f by (simp del: upt_Suc)
    have V: "?V = (Inl (LineCountViolation p 15 (?c p)),
        w\<lparr>trace := trace w @ OpenDatabase dbPath # map (CountPageLines dbPath) ([1, 2] @ [3..<p] @ [p])\<rparr>)"
      using late by (simp add: run tw del: upt_Suc)
    have pr: "3 \<le> p" "p \<le> N" "?c p \<noteq> 15" using f by auto
    have range: "[1, 2] @ [3..<p] @ [p] = [1..<Suc p]"
    proof -
      have "[1..<3 + (Suc p - 3)] = [1..<3] @ [3..<3 + (Suc p - 3)]"
        by (rule upt_add_eq_append) simp
      moreover have "3 + (Suc p - 3) = Suc p" using pr(1) by simp
      ultimately have "[1..<Suc p] = [1..<3] @ [3..<Suc p]" by simp
      moreover have "[1..<3] = [1, 2::nat]" by (simp add: upt_rec)
      moreover have "[3..<Suc p] = [3..<p] @ [p]" using pr(1) by simp
      ultimately show ?thesis by simp
    qed
    have early: "\<forall>q\<in>{1..<p}. ?c q = (if q \<le> 2 then 8 else 15)"
    proof
      fix q assume "q \<in> {1..<p}"
      then consider "q = 1" | "q = 2" | "3 \<le> q \<and> q < p" by force
      then show "?c q = (if q \<le> 2 then 8 else 15)"
        using late(1,2) f by cases auto
    qed
    have no15: "\<not> (\<forall>page\<in>{3..N}. ?c page = 15)"
      using pr by auto
    have V': "?V = (Inl (LineCountViolation p 15 (?c p)),
        w\<lparr>trace := trace w @ OpenDatabase dbPath # map (CountPageLines dbPath) [1..<Suc p]\<rparr>)"
      using V [unfolded range] .
    have "\<exists>page. page \<in> {1, 2} \<union> {3..N}
             \<and> LineCountViolation p 15 (?c p)
                 = LineCountViolation page (if page \<le> 2 then 8 else 15) (?c page)
             \<and> ?c page \<noteq> (if page \<le> 2 then 8 else 15)
             \<and> (\<forall>q\<in>{1..<page}. ?c q = (if q \<le> 2 then 8 else 15))
             \<and> [1..<Suc p] = [1..<Suc page]"
      using pr early by (intro exI[of _ p]) simp
    then show ?thesis
      using no15 late(1,2) by (simp add: V' del: upt_Suc)
  qed
qed

theorem validate15LinesPerPage_gate_witness:
  "fst (validate15LinesPerPage quiet_env ''/m/mushaf_layout.db'' 3 (layout_world sample_rows)) = Inr ()
   \<and> fst (validate15LinesPerPage quiet_env ''/m/mushaf_layout.db'' 3
            (layout_world (butlast sample_rows))) = Inl (LineCountViolation 3 15 14)"
proof -
  have c: "countPageLines sample_rows 1 = 8" "countPageLines sample_rows 2 = 8"
    "countPageLines sample_rows 3 = 15"
    by (simp_all add: countPageLines_def sample_rows_def upt_rec)
  have c': "countPageLines (butlast sample_rows) 1 = 8" "countPageLines (butlast sample_rows) 2 = 8"
    "countPageLines (butlast sample_rows) 3 = 14"
    by (simp_all add: countPageLines_def sample_rows_def upt_rec)
  have h1: "\<And>rows. map_of (fs (layout_world rows)) ''/m/mushaf_layout.db'' = Some (File (LayoutDb rows))"
    by (simp add: layout_world_def)
  have h2: "fault quiet_env (OpenDatabase ''/m/mushaf_layout.db'') = None"
    by (simp add: quiet_env_def)
  have h3: "\<forall>page. fault quiet_env (CountPageLines ''/m/mushaf_layout.db'' page) = None"
    by (simp add: quiet_env_def)
  have three: "{3..3::nat} = {3}" by simp
  have good: "fst (validate15LinesPerPage quiet_env ''/m/mushaf_layout.db'' 3 (layout_world sample_rows)) = Inr ()"
    using validate15LinesPerPage_gate [where rows = sample_rows and N = 3, OF h1 h2 h3] c three
    by simp
  let ?B = "validate15LinesPerPage quiet_env ''/m/mushaf_layout.db'' 3 (layout_world (butlast sample_rows))"
  note g = validate15LinesPerPage_gate [where rows = "butlast sample_rows" and N = 3, OF h1 h2 h3]
  have "fst ?B \<noteq> Inr ()"
    using g c' three by simp
  then obtain e where e: "fst ?B = Inl e"
    by (cases "fst ?B") auto
  with g obtain page where page: "page \<in> {1, 2} \<union> {3..3}"
    "e = LineCountViolation page (if page \<le> 2 then 8 else 15) (countPageLines (butlast sample_rows) page)"
    "countPageLines (butlast sample_rows) page \<noteq> (if page \<le> 2 then 8 else 15)"
    by blast
  from page(1,3) c' have "page = 3" by auto
  with page(2) c' e have "fst ?B = Inl (LineCountViolation 3 15 14)" by simp
  with good show ?thesis by simp
qed

section \<open>Failure handling\<close>

text \<open>
  C2. When a step of the \<open>try\<close> block throws \<open>e\<close>, leaving the world \<open>w1\<close> and the
  progress object \<open>p1\<close>, and the callback returns when it is given the failed snapshot,
  \<open>downloadMushaf\<close> throws that same \<open>e\<close>, whether or not the cleanup raises; what it
  does after the step is exactly this, in order: one delivery to the callback, of the object
  with status \<open>failed\<close> and the message of \<open>e\<close> as its error, then the removal of the
  destination root. When that removal raises nothing, nothing exists at or below the
  destination root afterwards. Every run that throws is a run whose \<open>try\<close> block threw, and
  it throws the exception of the \<open>try\<close> block unless the callback throws on the failed
  snapshot, in which case it throws the callback's.
\<close>

theorem downloadMushaf_failure_handling:
  "(tryBlock en m (mushafDir_of en (id' m))
       (w\<lparr>progressCallbacks := insert (id' m) (progressCallbacks w)\<rparr>, initialProgress m)
     = (Inl e, (w1, p1))
    \<and> fault en (Callback (p1\<lparr>status := failed, error := Some (message e),
                               current_step := ''Erreur: '' @ message e\<rparr>)) = None \<longrightarrow>
       fst (downloadMushaf en m w) = Inl e
       \<and> trace (snd (downloadMushaf en m w))
           = trace w1 @ [Callback (p1\<lparr>status := failed, error := Some (message e),
                                      current_step := ''Erreur: '' @ message e\<rparr>),
                         DeleteAsync (mushafDir_of en (id' m))]
       \<and> (fault en (DeleteAsync (mushafDir_of en (id' m))) = None \<longrightarrow>
            (\<forall>q. is_under (mushafDir_of en (id' m)) q \<longrightarrow>
                 \<not> fs_exists (fs (snd (downloadMushaf en m w))) q)))
   \<and> (fst (downloadMushaf en m w) = Inl e \<longrightarrow>
        (\<exists>e0 w1 p1. tryBlock en m (mushafDir_of en (id' m))
           (w\<lparr>progressCallbacks := insert (id' m) (progressCallbacks w)\<rparr>, initialProgress m)
         = (Inl e0, (w1, p1))
         \<and> (e = e0
            \<or> (\<exists>msg. fault en (Callback (p1\<lparr>status := failed, error := Some (message e0),
                                              current_step := ''Erreur: '' @ message e0\<rparr>)) = Some msg
                  \<and> e = CallbackError msg))))"
proof -
  let ?d = "mushafDir_of en (id' m)"
  let ?T = "tryBlock en m ?d
       (w\<lparr>progressCallbacks := insert (id' m) (progressCallbacks w)\<rparr>, initialProgress m)"
  have forward: "fst (downloadMushaf en m w) = Inl e
       \<and> trace (snd (downloadMushaf en m w))
           = trace w1 @ [Callback (p1\<lparr>status := failed, error := Some (message e),
                                      current_step := ''Erreur: '' @ message e\<rparr>),
                         DeleteAsync ?d]
       \<and> (fault en (DeleteAsync ?d) = None \<longrightarrow>
            (\<forall>q. is_under ?d q \<longrightarrow> \<not> fs_exists (fs (snd (downloadMushaf en m w))) q))"
    if t: "?T = (Inl e, (w1, p1))"
      and c: "fault en (Callback (p1\<lparr>status := failed, error := Some (message e),
                               current_step := ''Erreur: '' @ message e\<rparr>)) = None"
  proof -
    have c': "fault en (Callback (failedSnapshot e (snd (w1, p1)))) = None"
      using c by (simp add: failedSnapshot_def)
    note run = downloadMushaf_cases(2) [OF t c']
    have "fault en (DeleteAsync ?d) = None \<longrightarrow>
            (\<forall>q. is_under ?d q \<longrightarrow> \<not> fs_exists (fs (snd (downloadMushaf en m w))) q)"
      by (simp add: run finallyBlock_def cleanupPartialDownload_def deleteAsync_def platform_def
            Let_def fs_remove_gone)
    moreover have "trace (snd (downloadMushaf en m w))
           = trace w1 @ [Callback (p1\<lparr>status := failed, error := Some (message e),
                                      current_step := ''Erreur: '' @ message e\<rparr>),
                         DeleteAsync ?d]"
      by (simp add: run finallyBlock_def cleanupPartialDownload_def deleteAsync_def platform_def
            Let_def failedSnapshot_def split: option.splits)
    ultimately show ?thesis
      by (simp add: run)
  qed
  have backward: "\<exists>e0 w1 p1. ?T = (Inl e0, (w1, p1))
         \<and> (e = e0
            \<or> (\<exists>msg. fault en (Callback (p1\<lparr>status := failed, error := Some (message e0),
                                              current_step := ''Erreur: '' @ message e0\<rparr>)) = Some msg
                  \<and> e = CallbackError msg))"
    if f: "fst (downloadMushaf en m w) = Inl e"
  proof -
    obtain r s where ts: "?T = (r, s)" by (cases ?T)
    obtain w1 p1 where s: "s = (w1, p1)" by (cases s)
    show ?thesis
    proof (cases r)
      case (Inl e0)
      have t: "?T = (Inl e0, (w1, p1))"
        using ts Inl s by simp
      show ?thesis
      proof (cases "fault en (Callback (failedSnapshot e0 (snd (w1, p1))))")
        case None
        have "fst (downloadMushaf en m w) = Inl e0"
          by (simp add: downloadMushaf_cases(2) [OF t None])
        with f have "e = e0" by simp
        with t show ?thesis by blast
      next
        case (Some msg)
        have "fst (downloadMushaf en m w) = Inl (CallbackError msg)"
          by (simp add: downloadMushaf_cases(3) [OF t Some])
        with f have "e = CallbackError msg" by simp
        moreover have "fault en (Callback (p1\<lparr>status := failed, error := Some (message e0),
                                              current_step := ''Erreur: '' @ message e0\<rparr>)) = Some msg"
          using Some by (simp add: failedSnapshot_def)
        ultimately show ?thesis
          using t by blast
      qed
    next
      case (Inr u)
      with ts have "fst (downloadMushaf en m w) = Inr u"
        using downloadMushaf_cases(1) [of en m w u s] by simp
      with f show ?thesis by simp
    qed
  qed
  show ?thesis
    using forward backward by blast
qed

theorem downloadMushaf_failure_handling_witness:
  "fst (downloadMushaf stubborn_env qpc_v2 empty_world)
     = Inl (TransferFailed ''https://cdn.qul.tarteel.ai/databases/qpc_v2_layout.db'')
   \<and> last (trace (snd (downloadMushaf stubborn_env qpc_v2 empty_world)))
       = DeleteAsync ''file:///data/mushafs/1/''
   \<and> fst (downloadMushaf (answering (Some 404)) qpc_v2 empty_world)
       = Inl (TransferFailed ''https://cdn.qul.tarteel.ai/databases/qpc_v2_layout.db'')
   \<and> \<not> fs_exists (fs (snd (downloadMushaf (answering (Some 404)) qpc_v2 empty_world)))
         ''file:///data/mushafs/1/mushaf_layout.db''"
proof -
  let ?e = "TransferFailed ''https://cdn.qul.tarteel.ai/databases/qpc_v2_layout.db''"
  let ?w0 = "empty_world\<lparr>progressCallbacks := insert (id' qpc_v2) (progressCallbacks empty_world)\<rparr>"
  let ?T = "tryBlock stubborn_env qpc_v2 (mushafDir_of stubborn_env (id' qpc_v2)) (?w0, initialProgress qpc_v2)"
  let ?U = "tryBlock (answering (Some 404)) qpc_v2 (mushafDir_of (answering (Some 404)) (id' qpc_v2))
              (?w0, initialProgress qpc_v2)"
  have "fst ?T = Inl ?e" by code_simp
  then have T: "?T = (Inl ?e, (fst (snd ?T), snd (snd ?T)))"
    by (metis prod.collapse)
  have "fst ?U = Inl ?e" by code_simp
  then have U: "?U = (Inl ?e, (fst (snd ?U), snd (snd ?U)))"
    by (metis prod.collapse)
  have d: "mushafDir_of stubborn_env (id' qpc_v2) = ''file:///data/mushafs/1/''"
    "mushafDir_of (answering (Some 404)) (id' qpc_v2) = ''file:///data/mushafs/1/''"
    by code_simp+
  have under: "is_under ''file:///data/mushafs/1/'' ''file:///data/mushafs/1/mushaf_layout.db''"
    by code_simp
  have quiet: "fault (answering (Some 404)) ev = None" for ev
    by (simp add: answering_def quiet_env_def)
  have returns: "fault stubborn_env (Callback p) = None" for p
    by (simp add: stubborn_env_def)
  note a = downloadMushaf_failure_handling [of stubborn_env qpc_v2 empty_world ?e
      "fst (snd ?T)" "snd (snd ?T)"]
  note b = downloadMushaf_failure_handling [of "answering (Some 404)" qpc_v2 empty_world ?e
      "fst (snd ?U)" "snd (snd ?U)"]
  from a T returns have a1: "fst (downloadMushaf stubborn_env qpc_v2 empty_world) = Inl ?e"
    and a2: "last (trace (snd (downloadMushaf stubborn_env qpc_v2 empty_world)))
       = DeleteAsync ''file:///data/mushafs/1/''"
    by (simp_all add: d)
  from b U quiet have b1: "fst (downloadMushaf (answering (Some 404)) qpc_v2 empty_world) = Inl ?e"
    and b2: "\<forall>q. is_under ''file:///data/mushafs/1/'' q \<longrightarrow>
                 \<not> fs_exists (fs (snd (downloadMushaf (answering (Some 404)) qpc_v2 empty_world))) q"
    by (simp_all add: d)
  from b2 under have "\<not> fs_exists (fs (snd (downloadMushaf (answering (Some 404)) qpc_v2 empty_world)))
         ''file:///data/mushafs/1/mushaf_layout.db''"
    by blast
  with a1 a2 b1 show ?thesis by simp
qed

text \<open>
  When the callback throws on the failed snapshot the run does otherwise. The layout
  database answers 404, so the second step throws; the callback throws on the failed
  snapshot: the run throws the callback's exception and not the transfer's, no removal is
  called, and the destination root is still there.
\<close>

theorem downloadMushaf_failure_handling_counterexample:
  "fst (tryBlock throwing_env qpc_v2 ''file:///data/mushafs/1/''
          (empty_world\<lparr>progressCallbacks := {1}\<rparr>, initialProgress qpc_v2))
     = Inl (TransferFailed ''https://cdn.qul.tarteel.ai/databases/qpc_v2_layout.db'')
   \<and> mushafDir_of throwing_env (id' qpc_v2) = ''file:///data/mushafs/1/''
   \<and> fst (downloadMushaf throwing_env qpc_v2 empty_world) = Inl (CallbackError ''callback failed'')
   \<and> DeleteAsync ''file:///data/mushafs/1/'' \<notin> set (trace (snd (downloadMushaf throwing_env qpc_v2 empty_world)))
   \<and> fs_exists (fs (snd (downloadMushaf throwing_env qpc_v2 empty_world))) ''file:///data/mushafs/1/''"
  by code_simp

section \<open>The progress reported by an installation\<close>

text \<open>
  C3. In a run in which the progress events of each of the three transfers carry
  fractions that do not decrease and lie between 0 and 1, the percentages delivered to the
  callback by this run, in order, never decrease; there is at least one delivery and the
  first carries a percentage below 10 (it is 0). A delivery carries 100 only with the status
  \<open>completed\<close>, with one exception: when the callback throws on the completed snapshot, the
  run ends with \<open>completed\<close> at 100 followed by \<open>failed\<close> at 100, everything before being
  below 100. A successful run ends with \<open>completed\<close> at 100, a failing one with \<open>failed\<close>.
\<close>

theorem downloadMushaf_progress_monotone:
  assumes "\<forall>u\<in>{database_sqlite (download_urls m), common_fonts_zip (download_urls m),
                fonts_zip (download_urls m)}.
             (\<forall>t\<in>set (ticks (remote en u)). totalBytesExpectedToWrite t \<noteq> 0)
             \<and> sorted (fractions en u) \<and> (\<forall>p\<in>set (fractions en u). 0 \<le> p \<and> p \<le> 1)"
  shows "\<exists>ps. delivered (snd (downloadMushaf en m w)) = delivered w @ ps
          \<and> ps \<noteq> [] \<and> sorted (map snd ps) \<and> snd (hd ps) < 10
          \<and> ((\<forall>c\<in>set ps. snd c = 100 \<longrightarrow> fst c = completed)
             \<or> (\<exists>qs. ps = qs @ [(completed, 100), (failed, 100)] \<and> (\<forall>c\<in>set qs. snd c < 100))
               \<and> (\<exists>p. status p = completed \<and> fault en (Callback p) \<noteq> None))
          \<and> (fst (downloadMushaf en m w) = Inr () \<longrightarrow> last ps = (completed, 100))
          \<and> (\<forall>e. fst (downloadMushaf en m w) = Inl e \<longrightarrow> fst (last ps) = failed)"
proof -
  note sch = schedule_sorted [of en m]
  have S: "sorted (map snd (schedule en m))"
    and R: "\<forall>c\<in>set (schedule en m). 0 \<le> snd c \<and> snd c \<le> 95"
    and H: "hd (schedule en m) = (downloading, 0)" and N: "schedule en m \<noteq> []"
    using sch assms by auto
  note D = downloadMushaf_delivered [of en m w]
  have whole: "sorted (map snd (schedule en m @ [(completed, 100)]))"
    using S R by (fastforce simp: sorted_append)
  show ?thesis
  proof (cases "fst (downloadMushaf en m w)")
    case (Inr u)
    let ?ps = "schedule en m @ [(completed, 100)]"
    have d: "delivered (snd (downloadMushaf en m w)) = delivered w @ ?ps"
      using D Inr by simp
    have "snd (hd ?ps) < 10"
      using H N by simp
    moreover have "\<forall>c\<in>set ?ps. snd c = 100 \<longrightarrow> fst c = completed"
      using R by fastforce
    ultimately show ?thesis
      using d Inr whole by (intro exI [of _ ?ps]) simp
  next
    case (Inl e)
    with D obtain L where L:
      "delivered (snd (downloadMushaf en m w)) = delivered w @ L @ [(failed, last (0 # map snd L))]"
      "prefix L (schedule en m)
       \<or> L = schedule en m @ [(completed, 100)]
         \<and> (\<exists>p. status p = completed \<and> fault en (Callback p) \<noteq> None)"
      by blast
    let ?ps = "L @ [(failed, last (0 # map snd L))]"
    from L(2) show ?thesis
    proof
      assume pre: "prefix L (schedule en m)"
      then obtain zs where zs: "schedule en m = L @ zs"
        by (auto simp: prefix_def)
      have sL: "sorted (map snd L)"
        using S by (simp add: zs sorted_append)
      have rL: "\<forall>c\<in>set L. 0 \<le> snd c \<and> snd c \<le> 95"
        using R by (simp add: zs)
      have rl: "0 \<le> last (0 # map snd L) \<and> last (0 # map snd L) \<le> 95"
        using rL by (intro last_in_range) auto
      have "sorted (map snd ?ps)"
        using sorted_snoc_last [OF sL, of 0] by simp
      moreover have "snd (hd ?ps) < 10"
      proof (cases L)
        case Nil
        then show ?thesis by simp
      next
        case (Cons a as)
        then have "hd (schedule en m) = a" by (simp add: zs)
        with H Cons show ?thesis by simp
      qed
      moreover have "\<forall>c\<in>set ?ps. snd c = 100 \<longrightarrow> fst c = completed"
        using rL rl by fastforce
      ultimately show ?thesis
        using L(1) Inl by (intro exI [of _ ?ps]) simp
    next
      assume full: "L = schedule en m @ [(completed, 100)]
         \<and> (\<exists>p. status p = completed \<and> fault en (Callback p) \<noteq> None)"
      then have ps: "?ps = schedule en m @ [(completed, 100), (failed, 100)]"
        by simp
      have "sorted (map snd ?ps)"
        using whole unfolding ps by (simp add: sorted_append)
      moreover have "snd (hd ?ps) < 10"
        unfolding ps using H N by simp
      moreover have "\<exists>qs. ?ps = qs @ [(completed, 100), (failed, 100)] \<and> (\<forall>c\<in>set qs. snd c < 100)"
        unfolding ps using R by (intro exI [of _ "schedule en m"]) fastforce
      ultimately show ?thesis
        using L(1) Inl full by (intro exI [of _ ?ps]) simp
    qed
  qed
qed

theorem downloadMushaf_progress_monotone_witness:
  "\<exists>ps. delivered (snd (downloadMushaf sample_env small_mushaf empty_world)) = delivered empty_world @ ps
      \<and> ps \<noteq> [] \<and> sorted (map snd ps) \<and> snd (hd ps) < 10 \<and> last ps = (completed, 100)"
proof -
  have "\<forall>u\<in>{database_sqlite (download_urls small_mushaf), common_fonts_zip (download_urls small_mushaf),
                fonts_zip (download_urls small_mushaf)}.
             (\<forall>t\<in>set (ticks (remote sample_env u)). totalBytesExpectedToWrite t \<noteq> 0)
             \<and> sorted (fractions sample_env u) \<and> (\<forall>p\<in>set (fractions sample_env u). 0 \<le> p \<and> p \<le> 1)"
    using sample_ticks by (simp add: sample_urls sample_fractions)
  from downloadMushaf_progress_monotone [OF this, of empty_world] sample_success
  show ?thesis by blast
qed

text \<open>
  A run in which 100 is delivered with a status other than \<open>completed\<close>. The sample
  installation meets no obstacle and its three transfers report the fractions 1/2 and 1;
  the callback throws on the completed snapshot, which is delivered inside the \<open>try\<close>
  block: the \<open>catch\<close> block then delivers the same object marked failed, still at 100.
\<close>

theorem downloadMushaf_progress_monotone_counterexample:
  "fractions tripping_env (database_sqlite (download_urls small_mushaf)) = [1 / 2, 1]
   \<and> fractions tripping_env (common_fonts_zip (download_urls small_mushaf)) = [1 / 2, 1]
   \<and> fractions tripping_env (fonts_zip (download_urls small_mushaf)) = [1 / 2, 1]
   \<and> delivered (snd (downloadMushaf tripping_env small_mushaf empty_world)) =
       [(downloading, 0), (downloading, 5), (downloading, 10), (downloading, 10),
        (downloading, 25 / 2), (downloading, 15), (downloading, 15), (downloading, 45),
        (downloading, 75), (extracting, 75), (extracting, 80), (extracting, 95), (verifying, 95),
        (completed, 100), (failed, 100)]"
proof -
  let ?d = "mushafDir_of tripping_env (id' small_mushaf)"
  let ?s0 = "(empty_world\<lparr>progressCallbacks :=
        insert (id' small_mushaf) (progressCallbacks empty_world)\<rparr>, initialProgress small_mushaf)"
  have fr: "fractions tripping_env u = fractions sample_env u" for u
    by (simp add: fractions_def tripping_env_def)
  have sched: "schedule tripping_env small_mushaf = schedule sample_env small_mushaf"
    by (simp add: schedule_def fr)
  have trips: "fault tripping_env (Callback p) \<noteq> None" if "status p = completed" for p
    using that by (simp add: tripping_env_def)
  have run: "hoare (holding [] []) (tryBlock tripping_env small_mushaf ?d)
           (\<lambda>s. status (snd s) = completed \<and> fault tripping_env (Callback (snd s)) = None)
           (\<lambda>s. status (snd s) = completed \<and> fault tripping_env (Callback (snd s)) \<noteq> None)"
  proof (rule sample_tryBlock)
    show "fault tripping_env ev = None" if "\<And>p. ev \<noteq> Callback p" for ev
      using that by (cases ev) (simp_all add: tripping_env_def, blast)
  qed (simp_all add: tripping_env_def sample_env_def calm_def)
  have held: "holding [] [] ?s0"
    by (simp add: holding_def empty_world_def initialProgress_def)
  have seen: "observed [] (initializing, 0) ?s0"
    by (simp add: observed_def reported_def delivered_def current_def initialProgress_def
          empty_world_def)
  obtain r s where ts: "tryBlock tripping_env small_mushaf ?d ?s0 = (r, s)"
    by (cases "tryBlock tripping_env small_mushaf ?d ?s0")
  from run [unfolded hoare_def, rule_format, OF held] ts
  have out: "status (snd s) = completed"
    "fault tripping_env (Callback (snd s)) = None \<or> (\<exists>e. r = Inl e)"
    by (cases r; simp)+
  from out(2) trips [OF out(1)] obtain e where r: "r = Inl e"
    by blast
  note st = out(1)
  from tryBlock_reported [of "[]" tripping_env small_mushaf ?d, unfolded hoare_def, rule_format, OF seen]
    ts r st
  have rep: "reported s = schedule tripping_env small_mushaf @ [(completed, 100)]"
    and pr: "progress (snd s) = 100"
    by (auto simp: current_def)
  have "delivered (snd (downloadMushaf tripping_env small_mushaf empty_world))
      = reported s @ [(failed, progress (snd s))]"
    using downloadMushaf_thrown [of tripping_env small_mushaf empty_world e s] ts r by simp
  then show ?thesis
    by (simp add: rep pr sched sample_schedule fr sample_urls sample_fractions)
qed


text \<open>
  C4. The schedule of a run, in order: the opening of the layout-database transfer at 0,
  each of its fractions \<open>p\<close> at \<open>p * 10\<close>; the opening of the common-fonts transfer at the
  percentage reached, each of its fractions at \<open>10 + p * 5\<close>; the opening of the per-page
  fonts transfer at the percentage reached, each of its fractions at \<open>15 + p * 60\<close>; then
  75 and 80 on extraction, 95 after it, and 95 on verification. A successful run delivers
  the whole schedule and then \<open>completed\<close> at exactly 100; a failing run delivers a
  beginning of the schedule and then \<open>failed\<close> at the last percentage delivered, or, when
  the callback throws on the completed snapshot, the whole schedule, \<open>completed\<close> at 100
  and then \<open>failed\<close> at 100.
\<close>

theorem downloadMushaf_weighting:
  "schedule en m =
     [(downloading, 0)]
     @ map (\<lambda>p. (downloading, p * 10)) (fractions en (database_sqlite (download_urls m)))
     @ [(downloading, last (0 # map (\<lambda>p. p * 10) (fractions en (database_sqlite (download_urls m)))))]
     @ map (\<lambda>p. (downloading, 10 + p * 5)) (fractions en (common_fonts_zip (download_urls m)))
     @ [(downloading,
         last (last (0 # map (\<lambda>p. p * 10) (fractions en (database_sqlite (download_urls m))))
               # map (\<lambda>p. 10 + p * 5) (fractions en (common_fonts_zip (download_urls m)))))]
     @ map (\<lambda>p. (downloading, 15 + p * 60)) (fractions en (fonts_zip (download_urls m)))
     @ [(extracting, 75), (extracting, 80), (extracting, 95), (verifying, 95)]
   \<and> (fst (downloadMushaf en m w) = Inr () \<longrightarrow>
        delivered (snd (downloadMushaf en m w)) = delivered w @ schedule en m @ [(completed, 100)])
   \<and> (\<forall>e. fst (downloadMushaf en m w) = Inl e \<longrightarrow>
        (\<exists>L. delivered (snd (downloadMushaf en m w))
               = delivered w @ L @ [(failed, last (0 # map snd L))]
           \<and> (prefix L (schedule en m)
              \<or> L = schedule en m @ [(completed, 100)]
                \<and> (\<exists>p. status p = completed \<and> fault en (Callback p) \<noteq> None))))"
  using downloadMushaf_delivered [of en m w]
  by (simp add: schedule_def Let_def)

theorem downloadMushaf_weighting_witness:
  "delivered (snd (downloadMushaf sample_env small_mushaf empty_world)) =
     [(downloading, 0), (downloading, 5), (downloading, 10), (downloading, 10),
      (downloading, 25 / 2), (downloading, 15), (downloading, 15), (downloading, 45),
      (downloading, 75), (extracting, 75), (extracting, 80), (extracting, 95), (verifying, 95),
      (completed, 100)]"
proof -
  have "delivered empty_world = []"
    by (simp add: delivered_def empty_world_def)
  with downloadMushaf_weighting [of sample_env small_mushaf empty_world] sample_success
  show ?thesis
    by (simp add: sample_schedule)
qed

section \<open>The font-count check\<close>

text \<open>
  C5. The font-count check compares the number of entries of the listing of
  \<open>fonts/pages/\<close> that are per-page font files with the declared page count: it passes
  when they are equal and otherwise fails with the count mismatch carrying the expected
  and the found number (604 expected and 603 found, for example). \<open>verifyIntegrity\<close>
  fails with a count mismatch only when the number found in the installed directory
  differs from the declared page count, reporting both; and when the critical files exist
  and the platform raises nothing, its outcome is that of the font-count check on the
  listing of the installed directory.
\<close>

theorem verifyIntegrity_font_count:
  "checkFontCount m pagesDir =
     (if length (filter (\<lambda>file. endsWith file ''.ttf'') pagesDir) = pages_count m then Inr ()
      else Inl (AssetCountMismatch (pages_count m)
                  (length (filter (\<lambda>file. endsWith file ''.ttf'') pagesDir))))
   \<and> (\<forall>a b. fst (verifyIntegrity en mushafDir m w) = Inl (AssetCountMismatch a b) \<longrightarrow>
          a = pages_count m \<and> a \<noteq> b
          \<and> b = length (filter (\<lambda>file. endsWith file ''.ttf'')
                          (children (fs w) (mushafDir @ ''fonts/pages/''))))
   \<and> ((\<forall>p. fault en (GetInfo p) = None)
        \<and> fault en (ReadDirectory (mushafDir @ ''fonts/pages/'')) = None
        \<and> (\<forall>p\<in>set (criticalFiles mushafDir m). fs_exists (fs w) p)
        \<and> fs_exists (fs w) (mushafDir @ ''fonts/pages/'') \<longrightarrow>
        fst (verifyIntegrity en mushafDir m w)
          = checkFontCount m (children (fs w) (mushafDir @ ''fonts/pages/'')))"
proof -
  have pure: "checkFontCount m pagesDir =
     (if length (filter (\<lambda>file. endsWith file ''.ttf'') pagesDir) = pages_count m then Inr ()
      else Inl (AssetCountMismatch (pages_count m)
                  (length (filter (\<lambda>file. endsWith file ''.ttf'') pagesDir))))"
    by (simp add: checkFontCount_def Let_def)
  show ?thesis
    using pure verifyIntegrity_mismatch [of en mushafDir m w]
      verifyIntegrity_reached [of en mushafDir m w]
    by simp
qed

theorem verifyIntegrity_font_count_witness:
  "checkFontCount qpc_v2 (font_names [1..<604]) = Inl (AssetCountMismatch 604 603)
   \<and> fst (verifyIntegrity quiet_env ''/m/'' qpc_v2 two_fonts_world) = Inl (AssetCountMismatch 604 2)"
proof -
  have "checkFontCount qpc_v2 (font_names [1..<604]) = Inl (AssetCountMismatch 604 603)"
    using verifyIntegrity_font_count [of qpc_v2 "font_names [1..<604]"]
    by (simp add: font_names_count qpc_v2_def)
  moreover have h1: "\<forall>p. fault quiet_env (GetInfo p) = None"
    and h2: "fault quiet_env (ReadDirectory (''/m/'' @ ''fonts/pages/'')) = None"
    by (simp_all add: quiet_env_def)
  moreover have h3: "\<forall>p\<in>set (criticalFiles ''/m/'' qpc_v2). fs_exists (fs two_fonts_world) p"
    by code_simp
  moreover have h4: "fs_exists (fs two_fonts_world) (''/m/'' @ ''fonts/pages/'')"
    by code_simp
  moreover have "checkFontCount qpc_v2 (children (fs two_fonts_world) (''/m/'' @ ''fonts/pages/''))
      = Inl (AssetCountMismatch 604 2)"
    by code_simp
  ultimately show ?thesis
    using verifyIntegrity_font_count [of qpc_v2 "[]" quiet_env "''/m/''" two_fonts_world]
    by simp
qed

section \<open>Recording an installation\<close>

text \<open>
  C6. After \<open>downloadMushaf\<close> has returned normally, the catalog is the catalog before it
  with one more row, the only row for the identifier, carrying the name, the code, the page
  count and the lines per page of the descriptor, the destination root and the value of
  \<open>new Date().toISOString()\<close>; \<open>isInstalled\<close> for the identifier answers true and
  \<open>getMushafPath\<close> answers the destination root, whenever the storage raises nothing.
\<close>

theorem downloadMushaf_records_installation:
  assumes "fst (downloadMushaf en m w) = Inr ()"
  shows
    "installed_mushafs (snd (downloadMushaf en m w))
       = installed_mushafs w
         @ [\<lparr>row_id = id' m, row_name = name m, row_code = code m, row_pages_count = pages_count m,
             row_lines_per_page = lines_per_page m, row_local_path = mushafDir_of en (id' m),
             row_installed_at = toISOString en\<rparr>]
     \<and> filter (\<lambda>r. row_id r = id' m) (installed_mushafs (snd (downloadMushaf en m w)))
       = [\<lparr>row_id = id' m, row_name = name m, row_code = code m, row_pages_count = pages_count m,
           row_lines_per_page = lines_per_page m, row_local_path = mushafDir_of en (id' m),
           row_installed_at = toISOString en\<rparr>]
     \<and> (\<forall>en'. fault en' (GetItem (key_installed (id' m))) = None \<longrightarrow>
            fst (isInstalled en' (id' m) (snd (downloadMushaf en m w))) = Inr True)
     \<and> (\<forall>en'. fault en' (GetItem (key_path (id' m))) = None \<longrightarrow>
            fst (getMushafPath en' (id' m) (snd (downloadMushaf en m w)))
              = Inr (Some (mushafDir_of en (id' m))))"
proof -
  let ?w' = "snd (downloadMushaf en m w)"
  let ?row = "\<lparr>row_id = id' m, row_name = name m, row_code = code m, row_pages_count = pages_count m,
             row_lines_per_page = lines_per_page m, row_local_path = mushafDir_of en (id' m),
             row_installed_at = toISOString en\<rparr>"
  note s = downloadMushaf_success [OF assms]
  have rows: "installed_mushafs ?w' = installed_mushafs w @ [?row]"
    using s by (simp add: installedRow_def)
  have fresh: "filter (\<lambda>r. row_id r = id' m) (installed_mushafs w) = []"
    using s by (force simp: filter_empty_conv)
  have one: "filter (\<lambda>r. row_id r = id' m) (installed_mushafs ?w') = [?row]"
    by (simp add: rows fresh)
  have k1: "AsyncStorage ?w' (key_installed (id' m)) = Some ''true''"
    using s key_installed_not_path [of "id' m" "id' m"] by simp
  have k2: "AsyncStorage ?w' (key_path (id' m)) = Some (mushafDir_of en (id' m))"
    using s by simp
  have q1: "fst (isInstalled en' (id' m) ?w') = Inr True"
    if "fault en' (GetItem (key_installed (id' m))) = None" for en'
    using that k1 by (simp add: isInstalled_def andThen_def getItem_def platform_def Let_def)
  have q2: "fst (getMushafPath en' (id' m) ?w') = Inr (Some (mushafDir_of en (id' m)))"
    if "fault en' (GetItem (key_path (id' m))) = None" for en'
    using that k2 by (simp add: getMushafPath_def getItem_def platform_def Let_def)
  show ?thesis
    using rows one q1 q2 by blast
qed

theorem downloadMushaf_records_installation_witness:
  "fst (isInstalled quiet_env 1 (snd (downloadMushaf sample_env small_mushaf empty_world))) = Inr True
   \<and> fst (getMushafPath quiet_env 1 (snd (downloadMushaf sample_env small_mushaf empty_world)))
       = Inr (Some ''file:///data/mushafs/1/'')
   \<and> installed_mushafs (snd (downloadMushaf sample_env small_mushaf empty_world))
       = [\<lparr>row_id = 1, row_name = ''KFGQPC V2 (1421H)'', row_code = ''qpc_v2'', row_pages_count = 3,
           row_lines_per_page = 15, row_local_path = ''file:///data/mushafs/1/'',
           row_installed_at = ''2024-01-01T00:00:00.000Z''\<rparr>]"
proof -
  note t = downloadMushaf_records_installation [OF sample_success]
  have q: "\<And>ev. fault quiet_env ev = None"
    by (simp add: quiet_env_def)
  have i: "id' small_mushaf = 1" "name small_mushaf = ''KFGQPC V2 (1421H)''"
    "code small_mushaf = ''qpc_v2''" "pages_count small_mushaf = 3" "lines_per_page small_mushaf = 15"
    "toISOString sample_env = ''2024-01-01T00:00:00.000Z''"
    by (simp_all add: small_mushaf_def qpc_v2_def sample_env_def)
  have d: "mushafDir_of sample_env 1 = ''file:///data/mushafs/1/''"
    "mushafDir_of sample_env (Suc 0) = ''file:///data/mushafs/1/''"
    by code_simp+
  have e: "installed_mushafs empty_world = []"
    by (simp add: empty_world_def)
  from t have "fst (isInstalled quiet_env (id' small_mushaf)
        (snd (downloadMushaf sample_env small_mushaf empty_world))) = Inr True"
    using q by blast
  moreover from t have "fst (getMushafPath quiet_env (id' small_mushaf)
        (snd (downloadMushaf sample_env small_mushaf empty_world)))
       = Inr (Some (mushafDir_of sample_env (id' small_mushaf)))"
    using q by blast
  moreover from t have "installed_mushafs (snd (downloadMushaf sample_env small_mushaf empty_world))
       = installed_mushafs empty_world
         @ [\<lparr>row_id = id' small_mushaf, row_name = name small_mushaf, row_code = code small_mushaf,
             row_pages_count = pages_count small_mushaf,
             row_lines_per_page = lines_per_page small_mushaf,
             row_local_path = mushafDir_of sample_env (id' small_mushaf),
             row_installed_at = toISOString sample_env\<rparr>]"
    by blast
  ultimately show ?thesis
    by (simp add: i d e)
qed

section \<open>Uninstalling\<close>

text \<open>
  C7. When the platform raises nothing, \<open>deleteMushaf\<close> returns normally for every
  identifier and every world, installed or not. Afterwards nothing exists at or below the
  root directory of the identifier, no catalog row has the identifier and both of its
  storage keys are absent; the two storage keys and the catalog rows of every other
  identifier are as before. For an identifier with no directory, no row and no keys, the
  file system, the catalog and the storage are unchanged.
\<close>

theorem deleteMushaf_removes_only_its_own:
  assumes "fault en (DeleteAsync (mushafDir_of en mushafId)) = None"
    and "fault en (OpenDatabase ''mushaf_library.db'') = None"
    and "fault en (DeleteRow mushafId) = None"
    and "fault en (RemoveItem (key_installed mushafId)) = None"
    and "fault en (RemoveItem (key_path mushafId)) = None"
  shows
    "fst (deleteMushaf en mushafId w) = Inr ()
     \<and> (\<forall>q. is_under (mushafDir_of en mushafId) q \<longrightarrow>
            \<not> fs_exists (fs (snd (deleteMushaf en mushafId w))) q)
     \<and> (\<forall>r\<in>set (installed_mushafs (snd (deleteMushaf en mushafId w))). row_id r \<noteq> mushafId)
     \<and> AsyncStorage (snd (deleteMushaf en mushafId w)) (key_installed mushafId) = None
     \<and> AsyncStorage (snd (deleteMushaf en mushafId w)) (key_path mushafId) = None
     \<and> (\<forall>other. other \<noteq> mushafId \<longrightarrow>
            AsyncStorage (snd (deleteMushaf en mushafId w)) (key_installed other)
              = AsyncStorage w (key_installed other)
            \<and> AsyncStorage (snd (deleteMushaf en mushafId w)) (key_path other)
              = AsyncStorage w (key_path other)
            \<and> filter (\<lambda>r. row_id r = other) (installed_mushafs (snd (deleteMushaf en mushafId w)))
              = filter (\<lambda>r. row_id r = other) (installed_mushafs w))
     \<and> ((\<forall>q. is_under (mushafDir_of en mushafId) q \<longrightarrow> \<not> fs_exists (fs w) q)
          \<and> (\<forall>r\<in>set (installed_mushafs w). row_id r \<noteq> mushafId)
          \<and> AsyncStorage w (key_installed mushafId) = None
          \<and> AsyncStorage w (key_path mushafId) = None \<longrightarrow>
          (\<forall>q. map_of (fs (snd (deleteMushaf en mushafId w))) q = map_of (fs w) q)
          \<and> installed_mushafs (snd (deleteMushaf en mushafId w)) = installed_mushafs w
          \<and> AsyncStorage (snd (deleteMushaf en mushafId w)) = AsyncStorage w)"
proof -
  note run = deleteMushaf_run [OF assms, of w]
  let ?d = "mushafDir_of en mushafId"
  have gone: "\<forall>q. is_under ?d q \<longrightarrow> \<not> fs_exists (fs (snd (deleteMushaf en mushafId w))) q"
    by (simp add: run fs_remove_gone)
  have rows: "\<forall>r\<in>set (installed_mushafs (snd (deleteMushaf en mushafId w))). row_id r \<noteq> mushafId"
    by (simp add: run)
  have keys: "AsyncStorage (snd (deleteMushaf en mushafId w)) (key_installed mushafId) = None"
    "AsyncStorage (snd (deleteMushaf en mushafId w)) (key_path mushafId) = None"
    by (simp_all add: run)
  have others: "AsyncStorage (snd (deleteMushaf en mushafId w)) (key_installed other)
              = AsyncStorage w (key_installed other)
            \<and> AsyncStorage (snd (deleteMushaf en mushafId w)) (key_path other)
              = AsyncStorage w (key_path other)
            \<and> filter (\<lambda>r. row_id r = other) (installed_mushafs (snd (deleteMushaf en mushafId w)))
              = filter (\<lambda>r. row_id r = other) (installed_mushafs w)"
    if "other \<noteq> mushafId" for other
  proof -
    have k: "key_installed other \<noteq> key_installed mushafId" "key_path other \<noteq> key_path mushafId"
      "key_installed other \<noteq> key_path mushafId" "key_path other \<noteq> key_installed mushafId"
      using that key_installed_inj key_path_inj key_installed_not_path
      by (blast, blast, blast, metis key_installed_not_path)
    have "filter (\<lambda>r. row_id r = other) (filter (\<lambda>r. row_id r \<noteq> mushafId) (installed_mushafs w))
        = filter (\<lambda>r. row_id r = other) (installed_mushafs w)"
      using that by (auto intro: filter_cong)
    then show ?thesis
      using k by (simp add: run)
  qed
  have absent: "(\<forall>q. map_of (fs (snd (deleteMushaf en mushafId w))) q = map_of (fs w) q)
          \<and> installed_mushafs (snd (deleteMushaf en mushafId w)) = installed_mushafs w
          \<and> AsyncStorage (snd (deleteMushaf en mushafId w)) = AsyncStorage w"
    if never: "(\<forall>q. is_under ?d q \<longrightarrow> \<not> fs_exists (fs w) q)
          \<and> (\<forall>r\<in>set (installed_mushafs w). row_id r \<noteq> mushafId)
          \<and> AsyncStorage w (key_installed mushafId) = None
          \<and> AsyncStorage w (key_path mushafId) = None"
  proof -
    have "map_of (fs_remove (fs w) ?d) q = map_of (fs w) q" for q
    proof (cases "is_under ?d q")
      case True
      then have "map_of (fs w) q = None" using never by (simp add: fs_exists_def)
      moreover have "map_of (fs_remove (fs w) ?d) q = None"
        using fs_remove_gone [OF True, of "fs w"] by (simp add: fs_exists_def)
      ultimately show ?thesis by simp
    next
      case False
      then show ?thesis by (rule fs_remove_kept)
    qed
    moreover have "filter (\<lambda>r. row_id r \<noteq> mushafId) (installed_mushafs w) = installed_mushafs w"
      using never by (simp add: filter_id_conv)
    moreover have "(AsyncStorage w)(key_installed mushafId := None, key_path mushafId := None)
        = AsyncStorage w"
      using never by (simp add: fun_upd_idem)
    ultimately show ?thesis by (simp add: run)
  qed
  have ok: "fst (deleteMushaf en mushafId w) = Inr ()"
    by (simp add: run)
  show ?thesis
    using ok gone rows keys others absent by blast
qed

theorem deleteMushaf_removes_only_its_own_witness:
  "fst (deleteMushaf quiet_env 2 library_world) = Inr ()
   \<and> AsyncStorage (snd (deleteMushaf quiet_env 2 library_world)) (key_installed 1) = Some ''true''
   \<and> AsyncStorage (snd (deleteMushaf quiet_env 2 library_world)) (key_path 1)
       = Some ''file:///data/mushafs/1/''
   \<and> length (filter (\<lambda>r. row_id r = 1) (installed_mushafs (snd (deleteMushaf quiet_env 2 library_world)))) = 1
   \<and> fst (deleteMushaf quiet_env 1 library_world) = Inr ()
   \<and> AsyncStorage (snd (deleteMushaf quiet_env 1 library_world)) (key_installed 1) = None
   \<and> installed_mushafs (snd (deleteMushaf quiet_env 1 library_world)) = []
   \<and> fs_exists (fs library_world) ''file:///data/mushafs/1/mushaf_layout.db''
   \<and> \<not> fs_exists (fs (snd (deleteMushaf quiet_env 1 library_world)))
         ''file:///data/mushafs/1/mushaf_layout.db''
   \<and> \<not> fs_exists (fs (snd (deleteMushaf quiet_env 1 library_world))) ''file:///data/mushafs/1/''"
proof -
  have q: "\<And>ev. fault quiet_env ev = None"
    by (simp add: quiet_env_def)
  note other = deleteMushaf_removes_only_its_own [OF q q q q q, of 2 library_world]
  note own = deleteMushaf_removes_only_its_own [OF q q q q q, of 1 library_world]
  have k1: "AsyncStorage library_world (key_installed 1) = Some ''true''"
    "AsyncStorage library_world (key_path 1) = Some ''file:///data/mushafs/1/''"
    "length (filter (\<lambda>r. row_id r = 1) (installed_mushafs library_world)) = 1"
    by code_simp+
  have "(1::nat) \<noteq> 2" by simp
  with other have
    "AsyncStorage (snd (deleteMushaf quiet_env 2 library_world)) (key_installed 1)
       = AsyncStorage library_world (key_installed 1)"
    "AsyncStorage (snd (deleteMushaf quiet_env 2 library_world)) (key_path 1)
       = AsyncStorage library_world (key_path 1)"
    "filter (\<lambda>r. row_id r = 1) (installed_mushafs (snd (deleteMushaf quiet_env 2 library_world)))
       = filter (\<lambda>r. row_id r = 1) (installed_mushafs library_world)"
    by blast+
  moreover have "fst (deleteMushaf quiet_env 2 library_world) = Inr ()"
    using other by blast
  moreover have "fst (deleteMushaf quiet_env 1 library_world) = Inr ()"
    "AsyncStorage (snd (deleteMushaf quiet_env 1 library_world)) (key_installed 1) = None"
    using own by blast+
  moreover have "installed_mushafs (snd (deleteMushaf quiet_env 1 library_world)) = []"
  proof -
    from own have "\<forall>r\<in>set (installed_mushafs (snd (deleteMushaf quiet_env 1 library_world))). row_id r \<noteq> 1"
      by blast
    moreover have "set (installed_mushafs (snd (deleteMushaf quiet_env 1 library_world)))
        \<subseteq> set (installed_mushafs library_world)"
      by (simp add: deleteMushaf_run [OF q q q q q])
    moreover have "\<forall>r\<in>set (installed_mushafs library_world). row_id r = 1"
      by (simp add: library_world_def)
    ultimately show ?thesis
      by (metis all_not_in_conv set_empty subsetD)
  qed
  moreover have "fs_exists (fs library_world) ''file:///data/mushafs/1/mushaf_layout.db''"
    by code_simp
  moreover have "\<not> fs_exists (fs (snd (deleteMushaf quiet_env 1 library_world)))
         ''file:///data/mushafs/1/mushaf_layout.db''"
    "\<not> fs_exists (fs (snd (deleteMushaf quiet_env 1 library_world))) ''file:///data/mushafs/1/''"
  proof -
    have under: "is_under (mushafDir_of quiet_env 1) ''file:///data/mushafs/1/mushaf_layout.db''"
      "is_under (mushafDir_of quiet_env 1) ''file:///data/mushafs/1/''"
      by code_simp+
    from own have gone: "\<forall>q. is_under (mushafDir_of quiet_env 1) q \<longrightarrow>
            \<not> fs_exists (fs (snd (deleteMushaf quiet_env 1 library_world))) q"
      by blast
    from gone under(1) show "\<not> fs_exists (fs (snd (deleteMushaf quiet_env 1 library_world)))
         ''file:///data/mushafs/1/mushaf_layout.db''"
      by blast
    from gone under(2) show "\<not> fs_exists (fs (snd (deleteMushaf quiet_env 1 library_world)))
         ''file:///data/mushafs/1/''"
      by blast
  qed
  ultimately show ?thesis
    using k1 by simp
qed

section \<open>File transfers\<close>

text \<open>
  C8. \<open>downloadFile\<close> throws whenever the result of the transfer is absent or its HTTP
  status is not 200. The decision is taken on the result itself: when \<open>downloadAsync\<close>
  raises nothing, an absent result and a result with another status both make
  \<open>downloadFile\<close> throw the transfer failure for that source, and a result with status 200
  makes it complete without error.
\<close>

theorem downloadFile_checks_status:
  "(result_status (remote en u) \<noteq> Some 200 \<longrightarrow> (\<exists>e. fst (downloadFile en u filePath handler s) = Inl e))
   \<and> (fault en (DownloadAsync u filePath) = None \<longrightarrow>
        (result_status (remote en u) = None \<longrightarrow>
           fst (downloadFile en u filePath handler s) = Inl (TransferFailed u))
        \<and> (\<forall>st. result_status (remote en u) = Some st \<and> st \<noteq> 200 \<longrightarrow>
             fst (downloadFile en u filePath handler s) = Inl (TransferFailed u))
        \<and> (result_status (remote en u) = Some 200 \<longrightarrow>
             fst (downloadFile en u filePath handler s) = Inr ()))"
  by (simp add: downloadFile_def Let_def split: option.splits)

theorem downloadFile_checks_status_witness:
  "fst (downloadFile (answering (Some 404)) ''https://cdn/x.zip'' ''/m/x.zip'' (\<lambda>now p s. s)
          (empty_world, initialProgress qpc_v2)) = Inl (TransferFailed ''https://cdn/x.zip'')
   \<and> fst (downloadFile (answering None) ''https://cdn/x.zip'' ''/m/x.zip'' (\<lambda>now p s. s)
          (empty_world, initialProgress qpc_v2)) = Inl (TransferFailed ''https://cdn/x.zip'')
   \<and> fst (downloadFile (answering (Some 200)) ''https://cdn/x.zip'' ''/m/x.zip'' (\<lambda>now p s. s)
          (empty_world, initialProgress qpc_v2)) = Inr ()"
  using downloadFile_checks_status [of "answering (Some 404)" "''https://cdn/x.zip''" "''/m/x.zip''"
          "\<lambda>now p s. s" "(empty_world, initialProgress qpc_v2)"]
        downloadFile_checks_status [of "answering None" "''https://cdn/x.zip''" "''/m/x.zip''"
          "\<lambda>now p s. s" "(empty_world, initialProgress qpc_v2)"]
        downloadFile_checks_status [of "answering (Some 200)" "''https://cdn/x.zip''" "''/m/x.zip''"
          "\<lambda>now p s. s" "(empty_world, initialProgress qpc_v2)"]
  by (simp add: answering_def quiet_env_def)

section \<open>Speed and remaining time\<close>

text \<open>
  C9, as the code has it. On every progress event of the third transfer the speed
  reported is 0 whenever the elapsed time is not positive, and the downloaded megabytes
  divided by the elapsed seconds otherwise; the remaining time reported is 0 whenever that
  speed is not positive, and otherwise the rounded quotient of the remaining bytes by the
  speed in bytes per second, whose divisor is then not zero.
\<close>

theorem fontsTick_guards:
  "(of_int (now - start) / (1000::real) \<le> 0 \<longrightarrow> speed_mbps (fontsTick start now dp p) = 0)
   \<and> (of_int (now - start) / (1000::real) > 0 \<longrightarrow>
        speed_mbps (fontsTick start now dp p)
          = (dp * total_bytes p * 0.6 / 1024 / 1024) / (of_int (now - start) / 1000))
   \<and> (speed_mbps (fontsTick start now dp p) \<le> 0 \<longrightarrow> eta_seconds (fontsTick start now dp p) = 0)
   \<and> (speed_mbps (fontsTick start now dp p) > 0 \<longrightarrow>
        speed_mbps (fontsTick start now dp p) * 1024 * 1024 \<noteq> 0
        \<and> eta_seconds (fontsTick start now dp p)
          = of_int (round ((total_bytes p - dp * total_bytes p * 0.6)
                           / (speed_mbps (fontsTick start now dp p) * 1024 * 1024))))"
  by (simp add: fontsTick_def Let_def Math_round_def round_def)

theorem fontsTick_guards_witness:
  "speed_mbps (fontsTick 0 2000 (1/2) (initialProgress qpc_v2)) = 111 / 4
   \<and> eta_seconds (fontsTick 0 2000 (1/2) (initialProgress qpc_v2)) = 5
   \<and> speed_mbps (fontsTick 0 0 (1/2) (initialProgress qpc_v2)) = 0
   \<and> eta_seconds (fontsTick 0 0 (1/2) (initialProgress qpc_v2)) = 0"
proof -
  have tb: "total_bytes (initialProgress qpc_v2) = 193986560"
    by (simp add: initialProgress_def qpc_v2_def)
  note moving = fontsTick_guards [of 2000 0 "1/2" "initialProgress qpc_v2"]
  note still = fontsTick_guards [of 0 0 "1/2" "initialProgress qpc_v2"]
  have s1: "speed_mbps (fontsTick 0 2000 (1/2) (initialProgress qpc_v2)) = 111 / 4"
    using moving by (simp add: tb)
  have e1: "eta_seconds (fontsTick 0 2000 (1/2) (initialProgress qpc_v2)) = 5"
    using moving by (simp add: s1 tb round_def)
  have s0: "speed_mbps (fontsTick 0 0 (1/2) (initialProgress qpc_v2)) = 0"
    using still by simp
  have e0: "eta_seconds (fontsTick 0 0 (1/2) (initialProgress qpc_v2)) = 0"
    using still by (simp add: s0)
  show ?thesis using s1 e1 s0 e0 by simp
qed

text \<open>
  The guards test for a positive value, not for a value other than 0. With a clock that
  went back by a second the elapsed time is not 0 and the speed reported is 0, not the
  quotient; with a negative fraction (an expected size of \<open>-1\<close>) the speed is not 0 and
  the remaining time reported is 0, not the rounded quotient.
\<close>

theorem fontsTick_zero_guard_counterexample:
  "of_int (0 - 1000) / (1000::real) \<noteq> 0
   \<and> speed_mbps (fontsTick 1000 0 (1/2) (initialProgress qpc_v2))
       \<noteq> (1/2 * total_bytes (initialProgress qpc_v2) * 0.6 / 1024 / 1024) / (of_int (0 - 1000) / 1000)
   \<and> speed_mbps (fontsTick 0 2000 (- 1) (initialProgress qpc_v2)) \<noteq> 0
   \<and> eta_seconds (fontsTick 0 2000 (- 1) (initialProgress qpc_v2))
       \<noteq> of_int (round ((total_bytes (initialProgress qpc_v2)
                             - (- 1) * total_bytes (initialProgress qpc_v2) * 0.6)
                           / (speed_mbps (fontsTick 0 2000 (- 1) (initialProgress qpc_v2)) * 1024 * 1024)))"
  by (simp add: fontsTick_def Let_def Math_round_def round_def initialProgress_def qpc_v2_def)

section \<open>Entries that are not fonts\<close>

text \<open>
  C10. The font-count check counts the entries of the listing whose names end with
  \<open>.ttf\<close> and no others: its outcome on a listing is its outcome on the \<open>.ttf\<close>
  entries alone, an entry without the suffix can be added anywhere without changing it,
  and a listing whose \<open>.ttf\<close> entries are as many as the declared pages passes whatever
  else it holds; so \<open>verifyIntegrity\<close> raises no count mismatch in that case.
\<close>

theorem font_count_ignores_other_entries:
  "checkFontCount m pagesDir = checkFontCount m (filter (\<lambda>file. endsWith file ''.ttf'') pagesDir)
   \<and> (\<not> endsWith extra ''.ttf'' \<longrightarrow>
        checkFontCount m (before @ extra # after) = checkFontCount m (before @ after))
   \<and> (length (filter (\<lambda>file. endsWith file ''.ttf'') pagesDir) = pages_count m \<longrightarrow>
        checkFontCount m pagesDir = Inr ())
   \<and> (length (filter (\<lambda>file. endsWith file ''.ttf'') (children (fs w) (mushafDir @ ''fonts/pages/'')))
         = pages_count m \<longrightarrow>
        (\<forall>a b. fst (verifyIntegrity en mushafDir m w) \<noteq> Inl (AssetCountMismatch a b)))"
  using verifyIntegrity_mismatch [of en mushafDir m w]
  by (auto simp add: checkFontCount_def Let_def)

theorem font_count_ignores_other_entries_witness:
  "checkFontCount qpc_v2 (font_names [1..<300] @ ''notes.txt'' # font_names [300..<605]) = Inr ()"
proof -
  define A where "A = font_names [1..<300]"
  define B where "B = font_names [300..<605]"
  have n: "\<not> endsWith ''notes.txt'' ''.ttf''"
    by (simp add: endsWith_def)
  have "length (filter (\<lambda>file. endsWith file ''.ttf'') A) = 299"
    unfolding A_def font_names_count by simp
  moreover have "length (filter (\<lambda>file. endsWith file ''.ttf'') B) = 305"
    unfolding B_def font_names_count by simp
  ultimately have "length (filter (\<lambda>file. endsWith file ''.ttf'') (A @ B)) = pages_count qpc_v2"
    by (simp add: qpc_v2_def)
  note cnt = this
  note t = font_count_ignores_other_entries [of qpc_v2 "A @ B" "''notes.txt''" A B empty_world
        "''/m/''" quiet_env]
  from t n have "checkFontCount qpc_v2 (A @ ''notes.txt'' # B) = checkFontCount qpc_v2 (A @ B)"
    by blast
  moreover from t cnt have "checkFontCount qpc_v2 (A @ B) = Inr ()"
    by blast
  ultimately have "checkFontCount qpc_v2 (A @ ''notes.txt'' # B) = Inr ()"
    by simp
  then show ?thesis
    unfolding A_def B_def .
qed

end
